theory Spec2Isabelle
  imports Complex_Main "HOL-Library.Char_ord" "HOL-Library.List_Lexorder"
    "HOL-Library.Product_Lexorder"
begin

section \<open>Values, errors and tables\<close>

text \<open>
  A cell of a table holds a Python value. The model has the scalar values a survey table
  holds: text, an integer, a finite float (the rational it denotes), the float NaN that
  pandas uses as its missing marker, and \<open>None\<close>. A character of a text is a code point
  below 256 (Latin-1). A table carries the default row index \<open>0, 1, ...\<close>, which
  \<open>create_data\<close> establishes before every stage, so a row is known by its position.
\<close>

datatype cell = StrVal string | IntVal int | FloatVal rat | NaN | NoneVal

datatype error = KeyError | TypeError | AttributeError | ValueError | IndexError

text \<open>
  What a call writes for its user to see, in order: a line that \<open>print\<close> writes to standard
  output, and a progress bar of \<open>tqdm\<close> on standard error. \<open>tqdm\<close> draws the bar when the
  loop starts, with the number of turns it announces, and draws it again as the loop
  advances, at moments that depend on the clock; the model records the bar once. (A
  warning that a version of pandas writes about a call it has deprecated comes from the
  library and its version, and is not recorded.)
\<close>

datatype event = Printed string | Progress_bar nat

record frame =
  columns :: "string list"
  rows :: "cell list list"

fun is_text :: "cell \<Rightarrow> bool" where
  "is_text (StrVal s) = True"
| "is_text _ = False"

text \<open>\<open>columns.get_loc\<close>: the position of a column label, \<open>KeyError\<close> when absent.\<close>

fun get_loc :: "string \<Rightarrow> string list \<Rightarrow> nat option" where
  "get_loc c [] = None"
| "get_loc c (x # xs) = (if x = c then Some 0 else map_option Suc (get_loc c xs))"

subsection \<open>Python strings\<close>

text \<open>
  \<open>s.lower()\<close>. The capital letters below 256 are \<open>A\<close> to \<open>Z\<close> and the code points 192 to
  222 without the multiplication sign 215; the small letter of each is 32 further on.
\<close>

definition lower_char :: "char \<Rightarrow> char" where
  "lower_char c =
     (let n = (of_char c :: nat)
      in if (65 \<le> n \<and> n \<le> 90) \<or> (192 \<le> n \<and> n \<le> 214) \<or> (216 \<le> n \<and> n \<le> 222)
         then char_of (n + 32) else c)"

definition str_lower :: "string \<Rightarrow> string" where
  "str_lower s = map lower_char s"

text \<open>\<open>s.split(",")\<close>: every comma separates, empty pieces are kept.\<close>

fun split_comma :: "string \<Rightarrow> string list" where
  "split_comma [] = [[]]"
| "split_comma (c # cs) =
     (if c = CHR '','' then [] # split_comma cs
      else (case split_comma cs of [] \<Rightarrow> [[c]] | t # ts \<Rightarrow> (c # t) # ts))"

fun str_nat :: "nat \<Rightarrow> string" where
  "str_nat n =
     (if n < 10 then [char_of (48 + n)] else str_nat (n div 10) @ [char_of (48 + n mod 10)])"

definition str_int :: "int \<Rightarrow> string" where
  "str_int i = (if i < 0 then CHR ''-'' # str_nat (nat (- i)) else str_nat (nat i))"

text \<open>
  \<open>str(x)\<close>. No path of the program renders a float that is a cell: \<open>response_length\<close>
  fails on a float before \<open>str\<close> is reached, \<open>normalize_data\<close> renders a value only after
  it has lowercased it, and \<open>get_lookup\<close> renders a raw string after \<open>.str.lower()\<close>, which
  leaves text, NaN or \<open>None\<close>. The rendering of a float is therefore left out.
\<close>

fun py_str :: "cell \<Rightarrow> string" where
  "py_str (StrVal s) = s"
| "py_str (IntVal i) = str_int i"
| "py_str NaN = ''nan''"
| "py_str NoneVal = ''None''"

text \<open>
  \<open>repr(s)\<close> of a text: between apostrophes, or between double quotes when the text has
  an apostrophe and no double quote; the backslash and the enclosing quote are escaped,
  tab, line feed and carriage return are written \<open>\t\<close>, \<open>\n\<close>, \<open>\r\<close>, and every other code
  point that is not printable (below 32, 127 to 160, 173) by its two hexadecimal digits.
\<close>

definition hex_digit :: "nat \<Rightarrow> char" where
  "hex_digit n = (if n < 10 then char_of (48 + n) else char_of (87 + n))"

definition repr_char :: "char \<Rightarrow> char \<Rightarrow> string" where
  "repr_char quote c =
     (let n = (of_char c :: nat); backslash = char_of (92 :: nat)
      in if c = quote \<or> c = backslash then [backslash, c]
         else if n = 9 then [backslash, CHR ''t'']
         else if n = 10 then [backslash, CHR ''n'']
         else if n = 13 then [backslash, CHR ''r'']
         else if n < 32 \<or> (127 \<le> n \<and> n \<le> 160) \<or> n = 173
         then [backslash, CHR ''x'', hex_digit (n div 16), hex_digit (n mod 16)]
         else [c])"

definition repr_str :: "string \<Rightarrow> string" where
  "repr_str s =
     (let apostrophe = char_of (39 :: nat); double_quote = char_of (34 :: nat);
          quote = (if apostrophe \<in> set s \<and> double_quote \<notin> set s then double_quote
                   else apostrophe)
      in quote # concat (map (repr_char quote) s) @ [quote])"

text \<open>\<open>repr(x)\<close>: of a text as above, of any other value as \<open>str\<close> renders it; the
  rendering of a float is left out here as well.\<close>

fun py_repr :: "cell \<Rightarrow> string" where
  "py_repr (StrVal s) = repr_str s"
| "py_repr (IntVal i) = str_int i"
| "py_repr NaN = ''nan''"
| "py_repr NoneVal = ''None''"

fun join_comma :: "string list \<Rightarrow> string" where
  "join_comma [] = []"
| "join_comma [x] = x"
| "join_comma (x # y # ys) = x @ '', '' @ join_comma (y # ys)"

section \<open>Splitting a categorical variable\<close>

text \<open>
  A response of the series that is split: a scalar value, as a cell of a table holds it,
  or a list of scalar values (the documentation of \<open>split_categorical_vars\<close> speaks of a
  series made up of lists). \<open>str\<close> of a list renders its elements by \<open>repr\<close>, between
  brackets. The columns that \<open>split_multiple_categorical_vars\<close> takes from a table hold
  scalar values.
\<close>

datatype response = Scalar cell | Listlike "cell list"

type_synonym series = "response list"

fun response_str :: "response \<Rightarrow> string" where
  "response_str (Scalar c) = py_str c"
| "response_str (Listlike xs) = ''['' @ join_comma (map py_repr xs) @ '']''"

text \<open>\<open>is_nan(x)\<close>: \<open>isinstance(x, float) and math.isnan(x)\<close>.\<close>

fun is_nan :: "response \<Rightarrow> bool" where
  "is_nan (Scalar NaN) = True"
| "is_nan _ = False"

text \<open>\<open>response_length(x)\<close>: 1 for an int, \<open>len(x)\<close> otherwise; \<open>len\<close> of a float or
  of \<open>None\<close> raises \<open>TypeError\<close>.\<close>

fun response_length :: "response \<Rightarrow> error + nat" where
  "response_length (Scalar (IntVal i)) = Inr 1"
| "response_length (Scalar (StrVal s)) = Inr (length s)"
| "response_length (Scalar (FloatVal r)) = Inl TypeError"
| "response_length (Scalar NaN) = Inl TypeError"
| "response_length (Scalar NoneVal) = Inl TypeError"
| "response_length (Listlike xs) = Inr (length xs)"

text \<open>\<open>val.split(",")\<close> exists for text only.\<close>

fun str_split :: "response \<Rightarrow> error + string list" where
  "str_split (Scalar (StrVal s)) = Inr (split_comma s)"
| "str_split _ = Inl AttributeError"

type_synonym value_label_map = "(string \<times> string) list"

text \<open>\<open>list(keys).index(key)\<close>: the first position of the key; the loop asks for it only
  for one of the keys.\<close>

fun index_of :: "string \<Rightarrow> string list \<Rightarrow> nat" where
  "index_of k [] = 0"
| "index_of k (x # xs) = (if x = k then 0 else Suc (index_of k xs))"

text \<open>One turn of the loop over the keys: \<open>if key in val: add[index(key)] = 1\<close>.\<close>

definition mark_key :: "string list \<Rightarrow> string list \<Rightarrow> string \<Rightarrow> int list \<Rightarrow> int list" where
  "mark_key val keys key add = (if key \<in> set val then add[index_of key keys := 1] else add)"

text \<open>The body of the loop over the responses: the array appended for one response.\<close>

definition split_response :: "value_label_map \<Rightarrow> response \<Rightarrow> error + int list" where
  "split_response values_and_labels val =
     (let add = replicate (length values_and_labels) 0;
          keys = map fst values_and_labels
      in if \<not> is_nan val then
           (case response_length val of
              Inl e \<Rightarrow> Inl e
            | Inr n \<Rightarrow>
                (case (if n > 1 then str_split val else Inr [response_str val]) of
                   Inl e \<Rightarrow> Inl e
                 | Inr toks \<Rightarrow> Inr (fold (mark_key toks keys) keys add)))
         else Inr add)"

fun split_loop :: "value_label_map \<Rightarrow> series \<Rightarrow> int list list \<Rightarrow> error + int list list" where
  "split_loop vl [] acc = Inr acc"
| "split_loop vl (val # rest) acc =
     (case split_response vl val of
        Inl e \<Rightarrow> Inl e
      | Inr add \<Rightarrow> split_loop vl rest (acc @ [add]))"

definition split_categorical_vars :: "series \<Rightarrow> value_label_map \<Rightarrow> error + frame" where
  "split_categorical_vars series values_and_labels =
     (case split_loop values_and_labels series [] of
        Inl e \<Rightarrow> Inl e
      | Inr acc \<Rightarrow>
          Inr \<lparr>columns = map snd values_and_labels, rows = map (map IntVal) acc\<rparr>)"

section \<open>Normalizing against a lookup\<close>

text \<open>
  The lookup is the table that \<open>get_lookup\<close> returns: its rows in order, each the cell
  of column \<open>rawstring\<close> and the cell of column \<open>normalized\<close>.
\<close>

type_synonym lookup = "(cell \<times> cell) list"

text \<open>
  \<open>get_lookup\<close> builds the lookup from the normalization file, a table whose first column
  holds the raw strings and whose other columns hold the replacements. On a copy: the
  raw strings are lowercased by \<open>.str.lower()\<close>, which leaves a missing cell (NaN or
  \<open>None\<close>) as it is and gives NaN for any other cell that is not text; of the rows with the
  same raw string the first stays, NaN and \<open>None\<close> being different raw strings; each cell
  of a row that is not missing gives one entry, under the raw string as text. The table
  returned is built by \<open>pd.DataFrame\<close>, which chooses how it stores a column.
\<close>

fun str_accessor_lower :: "cell \<Rightarrow> cell" where
  "str_accessor_lower (StrVal s) = StrVal (str_lower s)"
| "str_accessor_lower NoneVal = NoneVal"
| "str_accessor_lower _ = NaN"

text \<open>
  \<open>.str\<close> exists on a column of text. pandas refuses it with \<open>AttributeError\<close> on a column
  that holds no text and holds numbers, or NaN only (which it stores as floats).
\<close>

fun is_number :: "cell \<Rightarrow> bool" where
  "is_number (IntVal i) = True"
| "is_number (FloatVal r) = True"
| "is_number _ = False"

definition no_str_accessor :: "cell list \<Rightarrow> bool" where
  "no_str_accessor col =
     (col \<noteq> [] \<and> \<not> list_ex is_text col
      \<and> (list_ex is_number col \<or> list_all (\<lambda>c. c = NaN) col))"

text \<open>
  How \<open>pd.DataFrame\<close> stores a column that it builds from Python values: a column with a
  text keeps every value; a column without text that has a float, or \<open>None\<close> beside an
  integer, becomes a column of floats, an integer stored as the float of its value and
  \<open>None\<close> as NaN; any other column keeps its values.
\<close>

fun to_float :: "cell \<Rightarrow> cell" where
  "to_float (IntVal i) = FloatVal (of_int i)"
| "to_float NoneVal = NaN"
| "to_float c = c"

fun is_float :: "cell \<Rightarrow> bool" where
  "is_float (FloatVal r) = True"
| "is_float NaN = True"
| "is_float _ = False"

fun is_int :: "cell \<Rightarrow> bool" where
  "is_int (IntVal i) = True"
| "is_int _ = False"

definition stored_as_floats :: "cell list \<Rightarrow> bool" where
  "stored_as_floats col =
     (\<not> list_ex is_text col
      \<and> (list_ex is_float col \<or> (list_ex (\<lambda>c. c = NoneVal) col \<and> list_ex is_int col)))"

definition infer_column :: "cell list \<Rightarrow> cell list" where
  "infer_column col = (if stored_as_floats col then map to_float col else col)"

text \<open>\<open>pd.DataFrame(data, columns = cols)\<close> for a list of rows.\<close>

definition column_at :: "nat \<Rightarrow> cell list list \<Rightarrow> cell list" where
  "column_at j data = concat (map (\<lambda>r. if j < length r then [r ! j] else []) data)"

definition DataFrame_of_rows :: "cell list list \<Rightarrow> string list \<Rightarrow> frame" where
  "DataFrame_of_rows data cols =
     \<lparr>columns = cols,
      rows = map (\<lambda>r. map (\<lambda>j. if stored_as_floats (column_at j data) then to_float (r ! j)
                                else r ! j)
                        [0..<length r])
               data\<rparr>"

fun drop_duplicate_rows :: "cell list \<Rightarrow> cell list list \<Rightarrow> cell list list" where
  "drop_duplicate_rows seen [] = []"
| "drop_duplicate_rows seen (r # rs) =
     (if hd r \<in> set seen then drop_duplicate_rows seen rs
      else r # drop_duplicate_rows (hd r # seen) rs)"

definition lookup_entries :: "cell list \<Rightarrow> (cell \<times> cell) list" where
  "lookup_entries r =
     map (\<lambda>c. (StrVal (str_lower (py_str (hd r))), c))
       (filter (\<lambda>c. c \<noteq> NaN \<and> c \<noteq> NoneVal) (tl r))"

definition get_lookup :: "frame \<Rightarrow> error + lookup" where
  "get_lookup df =
     (if columns df = [] then Inl IndexError
      else if no_str_accessor (map hd (rows df)) then Inl AttributeError
      else (let norm_dict = concat (map lookup_entries
                  (drop_duplicate_rows []
                     (map (\<lambda>r. str_accessor_lower (hd r) # tl r) (rows df))))
            in Inr (zip (map fst norm_dict) (infer_column (map snd norm_dict)))))"

text \<open>\<open>x.lower()\<close>: only text has the method.\<close>

fun lower :: "cell \<Rightarrow> error + string" where
  "lower (StrVal s) = Inr (str_lower s)"
| "lower _ = Inl AttributeError"

text \<open>\<open>lookup.loc[lookup["rawstring"] == key, "normalized"]\<close>: the normalized cells of the
  rows whose raw string is the key, in the order of the lookup.\<close>

definition lookup_loc :: "lookup \<Rightarrow> string \<Rightarrow> cell list" where
  "lookup_loc lk key = map snd (filter (\<lambda>entry. fst entry = StrVal key) lk)"

text \<open>\<open>replace\<close>: one copy of the row for each replacement, the cell at the position
  overwritten in the copy.\<close>

fun replace :: "cell list \<Rightarrow> cell list \<Rightarrow> nat \<Rightarrow> cell list list" where
  "replace replace_in_object [] position = []"
| "replace replace_in_object (replstr # others) position =
     replace_in_object[position := replstr] # replace replace_in_object others position"

definition no_entry_message :: "cell \<Rightarrow> string" where
  "no_entry_message v =
     ''No entry found for '' @ py_str v @ '' in normalization_info. Keep original version.''"

text \<open>
  The loop of \<open>normalize_data\<close> over the rows, with the list \<open>normalized_data\<close> and what
  has been written so far as its state. An exception ends the loop; what was written
  before stays written.
\<close>

fun normalize_loop ::
  "string list \<Rightarrow> lookup \<Rightarrow> string \<Rightarrow> cell list list \<Rightarrow> cell list list \<Rightarrow> event list
     \<Rightarrow> event list \<times> (error + cell list list)" where
  "normalize_loop cols lk var [] normalized_data printed = (printed, Inr normalized_data)"
| "normalize_loop cols lk var (row # rest) normalized_data printed =
     (case get_loc var cols of
        None \<Rightarrow> (printed, Inl KeyError)
      | Some normalization_position \<Rightarrow>
          (case lower (row ! normalization_position) of
             Inl e \<Rightarrow> (printed, Inl e)
           | Inr key \<Rightarrow>
               (let replacement_string = lookup_loc lk key
                in if length replacement_string = 0
                   then normalize_loop cols lk var rest normalized_data
                          (printed @ [Printed (no_entry_message (row ! normalization_position))])
                   else normalize_loop cols lk var rest
                          (normalized_data
                             @ replace row replacement_string normalization_position)
                          printed)))"

text \<open>\<open>normalize_data\<close>: what it writes (the progress bar of its loop over the rows, then
  the lines printed), and the exception raised or the table returned.\<close>

definition normalize_data :: "frame \<Rightarrow> lookup \<Rightarrow> string \<Rightarrow> event list \<times> (error + frame)" where
  "normalize_data data lk normalization_variable =
     (case normalize_loop (columns data) lk normalization_variable (rows data) []
             [Progress_bar (length (rows data))] of
        (printed, Inl e) \<Rightarrow> (printed, Inl e)
      | (printed, Inr normalized_data) \<Rightarrow>
          (printed, Inr (DataFrame_of_rows normalized_data (columns data))))"

section \<open>Replacing normalized strings by aggregation strings\<close>

text \<open>
  The dictionary has normalized strings as keys. \<open>d[x]\<close> raises \<open>KeyError\<close> for a value
  that is not a key; a cell that is not text is never equal to a key.
\<close>

type_synonym replacement_dict = "(string \<times> string) list"

fun dict_getitem :: "replacement_dict \<Rightarrow> cell \<Rightarrow> error + string" where
  "dict_getitem d (StrVal s) = (case map_of d s of None \<Rightarrow> Inl KeyError | Some l \<Rightarrow> Inr l)"
| "dict_getitem d _ = Inl KeyError"

text \<open>
  The loop over the index of the copy \<open>data_updated\<close>: each turn reads the cell of the
  row and writes the group label into it.
\<close>

fun repl_loop ::
  "string \<Rightarrow> replacement_dict \<Rightarrow> nat list \<Rightarrow> frame \<Rightarrow> error + frame" where
  "repl_loop column d [] data_updated = Inr data_updated"
| "repl_loop column d (ind # rest) data_updated =
     (case get_loc column (columns data_updated) of
        None \<Rightarrow> Inl KeyError
      | Some c \<Rightarrow>
          (case dict_getitem d (rows data_updated ! ind ! c) of
             Inl e \<Rightarrow> Inl e
           | Inr l \<Rightarrow>
               repl_loop column d rest
                 (data_updated\<lparr>rows := (rows data_updated)
                    [ind := (rows data_updated ! ind)[c := StrVal l]]\<rparr>)))"

definition repl_with_agg_string :: "frame \<Rightarrow> string \<Rightarrow> replacement_dict \<Rightarrow> error + frame" where
  "repl_with_agg_string data column replacement_string_dict =
     repl_loop column replacement_string_dict [0..<length (rows data)] data"

section \<open>Aggregation\<close>

subsection \<open>Missing values, equality of keys, order of keys\<close>

text \<open>\<open>pd.isna\<close>: NaN and \<open>None\<close> are missing.\<close>

fun isna :: "cell \<Rightarrow> bool" where
  "isna NaN = True"
| "isna NoneVal = True"
| "isna _ = False"

fun num_of :: "cell \<Rightarrow> rat option" where
  "num_of (IntVal i) = Some (of_int i)"
| "num_of (FloatVal r) = Some r"
| "num_of _ = None"

text \<open>
  Python compares and hashes numbers by value: \<open>3 == 3.0\<close>. \<open>py_key\<close> maps a cell to
  the representative of its class: two cells are the same key, and the same value in a
  comparison \<open>==\<close>, when their representatives are equal. pandas counts NaN keys as
  equal to each other when it removes duplicates and when it merges.
\<close>

fun py_key :: "cell \<Rightarrow> cell" where
  "py_key (FloatVal r) = (if r = of_int \<lfloor>r\<rfloor> then IntVal \<lfloor>r\<rfloor> else FloatVal r)"
| "py_key c = c"

text \<open>\<open>Series.drop_duplicates()\<close>: the first occurrence of every value stays.\<close>

fun drop_duplicates_from :: "cell list \<Rightarrow> cell list \<Rightarrow> cell list" where
  "drop_duplicates_from seen [] = []"
| "drop_duplicates_from seen (x # xs) =
     (if py_key x \<in> set seen then drop_duplicates_from seen xs
      else x # drop_duplicates_from (py_key x # seen) xs)"

definition drop_duplicates :: "cell list \<Rightarrow> cell list" where
  "drop_duplicates xs = drop_duplicates_from [] xs"

text \<open>
  The order in which \<open>groupby\<close> lists its groups: numbers by value before text, text by
  code points.
\<close>

fun sort_rank :: "cell \<Rightarrow> nat \<times> rat \<times> string" where
  "sort_rank (IntVal i) = (0, of_int i, [])"
| "sort_rank (FloatVal r) = (0, r, [])"
| "sort_rank (StrVal s) = (1, 0, s)"
| "sort_rank NaN = (2, 0, [])"
| "sort_rank NoneVal = (2, 0, [])"

subsection \<open>The reductions\<close>

type_synonym reducer = "cell list \<Rightarrow> error + cell"

definition skipna :: "cell list \<Rightarrow> cell list" where
  "skipna df = filter (\<lambda>v. \<not> isna v) df"

text \<open>
  \<open>custom_mean\<close> and \<open>custom_median\<close>: the reduction of the values that are not missing,
  missing when none is left, \<open>TypeError\<close> on text. The arithmetic is exact: the rounding of
  floating point is not modelled.
\<close>

definition custom_mean :: reducer where
  "custom_mean df =
     (let xs = skipna df
      in if xs = [] then Inr NaN
         else (case those (map num_of xs) of
                 None \<Rightarrow> Inl TypeError
               | Some ns \<Rightarrow> Inr (FloatVal (sum_list ns / of_nat (length ns)))))"

definition median_of :: "rat list \<Rightarrow> rat" where
  "median_of ns =
     (let sorted_ns = sort ns; n = length sorted_ns
      in if odd n then sorted_ns ! (n div 2)
         else (sorted_ns ! (n div 2 - 1) + sorted_ns ! (n div 2)) / 2)"

definition custom_median :: reducer where
  "custom_median df =
     (let xs = skipna df
      in if xs = [] then Inr NaN
         else (case those (map num_of xs) of
                 None \<Rightarrow> Inl TypeError
               | Some ns \<Rightarrow> Inr (FloatVal (median_of ns))))"

text \<open>\<open>a < b\<close> in Python: numbers by value, text by code points, \<open>TypeError\<close> between the
  two.\<close>

fun py_less :: "cell \<Rightarrow> cell \<Rightarrow> error + bool" where
  "py_less (StrVal a) (StrVal b) = Inr (a < b)"
| "py_less a b =
     (case (num_of a, num_of b) of
        (Some x, Some y) \<Rightarrow> Inr (x < y)
      | _ \<Rightarrow> Inl TypeError)"

fun max_loop :: "cell \<Rightarrow> cell list \<Rightarrow> error + cell" where
  "max_loop m [] = Inr m"
| "max_loop m (x # xs) =
     (case py_less m x of
        Inl e \<Rightarrow> Inl e
      | Inr b \<Rightarrow> max_loop (if b then x else m) xs)"

fun min_loop :: "cell \<Rightarrow> cell list \<Rightarrow> error + cell" where
  "min_loop m [] = Inr m"
| "min_loop m (x # xs) =
     (case py_less x m of
        Inl e \<Rightarrow> Inl e
      | Inr b \<Rightarrow> min_loop (if b then x else m) xs)"

text \<open>
  \<open>custom_max\<close> and \<open>custom_min\<close>: the missing values are skipped; when none is left
  the result is missing. pandas skips them in a column of objects by putting an infinite
  float in their place, so a group that holds text beside a missing value raises
  \<open>TypeError\<close>, as the comparison of text with a number does.
\<close>

definition custom_max :: reducer where
  "custom_max df =
     (let xs = skipna df
      in if xs = [] then Inr NaN
         else if length xs < length df \<and> list_ex is_text xs then Inl TypeError
         else max_loop (hd xs) (tl xs))"

definition custom_min :: reducer where
  "custom_min df =
     (let xs = skipna df
      in if xs = [] then Inr NaN
         else if length xs < length df \<and> list_ex is_text xs then Inl TypeError
         else min_loop (hd xs) (tl xs))"

text \<open>
  \<open>custom_one\<close> to \<open>custom_six\<close> differ in the number only. On a copy of the group:
  \<open>df_copy[df_copy != n] = 0\<close>, then \<open>df_copy[df_copy == n] = 1\<close>, then the maximum. A
  missing value is different from \<open>n\<close>, so the first assignment turns it into 0.
\<close>

definition set_where_not_equal :: "int \<Rightarrow> cell list \<Rightarrow> cell list" where
  "set_where_not_equal n df = map (\<lambda>v. if py_key v \<noteq> IntVal n then IntVal 0 else v) df"

definition set_where_equal :: "int \<Rightarrow> cell list \<Rightarrow> cell list" where
  "set_where_equal n df = map (\<lambda>v. if py_key v = IntVal n then IntVal 1 else v) df"

definition custom_number :: "int \<Rightarrow> reducer" where
  "custom_number n df = custom_max (set_where_equal n (set_where_not_equal n df))"

definition custom_one :: reducer where "custom_one = custom_number 1"
definition custom_two :: reducer where "custom_two = custom_number 2"
definition custom_three :: reducer where "custom_three = custom_number 3"
definition custom_four :: reducer where "custom_four = custom_number 4"
definition custom_five :: reducer where "custom_five = custom_number 5"
definition custom_six :: reducer where "custom_six = custom_number 6"

subsection \<open>Aggregating one column\<close>

text \<open>
  The variable \<open>agg_function\<close> holds the name it was given until one of the ten
  comparisons replaces it by a function. What is left goes to \<open>.agg\<close> of pandas. Given a
  function, \<open>.agg\<close> applies it to the values of each group. Given a name, it looks the name
  up among the attributes of its group-by object; what comes of that belongs to pandas
  and is the parameter \<open>named\<close>: from the name, the labels of the two columns and the two
  columns, to the exception that pandas raises or the column with its index that it
  returns (a name that pandas answers by several columns, or under an index of several
  levels, is outside the model).
\<close>

datatype agg_function = Name string | Callable reducer

definition rebind :: "string \<Rightarrow> reducer \<Rightarrow> agg_function \<Rightarrow> agg_function" where
  "rebind name f agg =
     (case agg of Name s \<Rightarrow> if s = name then Callable f else agg | Callable g \<Rightarrow> agg)"

record grouped =
  index_name :: string
  value_name :: string
  entries :: "(cell \<times> cell) list"

text \<open>\<open>groupby\<close> leaves out the rows whose key is missing and lists the groups in order.\<close>

definition group_keys :: "cell list \<Rightarrow> cell list" where
  "group_keys kcol = sort_key sort_rank (drop_duplicates (filter (\<lambda>k. \<not> isna k) kcol))"

definition group_values :: "cell list \<Rightarrow> cell list \<Rightarrow> cell \<Rightarrow> cell list" where
  "group_values kcol vcol g =
     map snd (filter (\<lambda>kv. py_key (fst kv) = py_key g) (zip kcol vcol))"

fun agg_loop :: "reducer \<Rightarrow> cell list \<Rightarrow> cell list \<Rightarrow> cell list \<Rightarrow> error + (cell \<times> cell) list"
  where
  "agg_loop f kcol vcol [] = Inr []"
| "agg_loop f kcol vcol (g # gs) =
     (case f (group_values kcol vcol g) of
        Inl e \<Rightarrow> Inl e
      | Inr c \<Rightarrow>
          (case agg_loop f kcol vcol gs of
             Inl e \<Rightarrow> Inl e
           | Inr rest \<Rightarrow> Inr ((g, c) # rest)))"

type_synonym agg_by_name =
  "string \<Rightarrow> string \<Rightarrow> string \<Rightarrow> cell list \<Rightarrow> cell list \<Rightarrow> error + grouped"

definition groupby_agg ::
  "agg_by_name \<Rightarrow> frame \<Rightarrow> string \<Rightarrow> string \<Rightarrow> agg_function \<Rightarrow> error + grouped"
  where
  "groupby_agg named data aggregation_column column_to_be_aggregated agg =
     (case get_loc aggregation_column (columns data) of
        None \<Rightarrow> Inl KeyError
      | Some kp \<Rightarrow>
          (case get_loc column_to_be_aggregated (columns data) of
             None \<Rightarrow> Inl KeyError
           | Some vp \<Rightarrow>
               (let kcol = map (\<lambda>r. r ! kp) (rows data);
                    vcol = map (\<lambda>r. r ! vp) (rows data)
                in (case agg of
                      Name s \<Rightarrow> named s aggregation_column column_to_be_aggregated kcol vcol
                    | Callable f \<Rightarrow>
                        (case agg_loop f kcol vcol (group_keys kcol) of
                           Inl e \<Rightarrow> Inl e
                         | Inr es \<Rightarrow>
                             Inr \<lparr>index_name = aggregation_column,
                                  value_name = column_to_be_aggregated,
                                  entries = es\<rparr>)))))"

definition aggregate_col ::
  "agg_by_name \<Rightarrow> frame \<Rightarrow> string \<Rightarrow> string \<Rightarrow> string \<Rightarrow> error + grouped"
  where
  "aggregate_col named data aggregation_column column_to_be_aggregated agg_function =
     groupby_agg named data aggregation_column column_to_be_aggregated
       (rebind ''six'' custom_six
       (rebind ''five'' custom_five
       (rebind ''four'' custom_four
       (rebind ''three'' custom_three
       (rebind ''two'' custom_two
       (rebind ''one'' custom_one
       (rebind ''min'' custom_min
       (rebind ''max'' custom_max
       (rebind ''median'' custom_median
       (rebind ''mean'' custom_mean (Name agg_function)))))))))))"

text \<open>
  What pandas gives for some names, for the evaluation of examples: \<open>count\<close>, \<open>first\<close> and
  \<open>last\<close> are reductions of the values of each group; \<open>ngroups\<close> is an attribute that is a
  number and no method, and \<open>.agg\<close> raises \<open>TypeError\<close> when it calls it. What pandas
  gives for any other name this instance does not say.
\<close>

definition pandas_count :: reducer where
  "pandas_count df = Inr (IntVal (int (length (skipna df))))"

definition pandas_first :: reducer where
  "pandas_first df = Inr (case skipna df of [] \<Rightarrow> NaN | x # xs \<Rightarrow> x)"

definition pandas_last :: reducer where
  "pandas_last df = Inr (case rev (skipna df) of [] \<Rightarrow> NaN | x # xs \<Rightarrow> x)"

definition reduce_groups ::
  "reducer \<Rightarrow> string \<Rightarrow> string \<Rightarrow> cell list \<Rightarrow> cell list \<Rightarrow> error + grouped" where
  "reduce_groups f k v kcol vcol =
     (case agg_loop f kcol vcol (group_keys kcol) of
        Inl e \<Rightarrow> Inl e
      | Inr es \<Rightarrow> Inr \<lparr>index_name = k, value_name = v, entries = es\<rparr>)"

definition pandas_named :: agg_by_name where
  "pandas_named s k v kcol vcol =
     (if s = ''count'' then reduce_groups pandas_count k v kcol vcol
      else if s = ''first'' then reduce_groups pandas_first k v kcol vcol
      else if s = ''last'' then reduce_groups pandas_last k v kcol vcol
      else if s = ''ngroups'' then Inl TypeError
      else undefined)"

subsection \<open>Operations on tables\<close>

text \<open>\<open>dat[names]\<close>: the columns of the list, \<open>KeyError\<close> when one is absent.\<close>

definition select_columns :: "frame \<Rightarrow> string list \<Rightarrow> error + frame" where
  "select_columns dat names =
     (case those (map (\<lambda>c. get_loc c (columns dat)) names) of
        None \<Rightarrow> Inl KeyError
      | Some ps \<Rightarrow> Inr \<lparr>columns = names, rows = map (\<lambda>r. map (\<lambda>p. r ! p) ps) (rows dat)\<rparr>)"

text \<open>\<open>dat.drop(columns = c)\<close>: every column of that label goes.\<close>

definition drop_column :: "frame \<Rightarrow> string \<Rightarrow> frame" where
  "drop_column dat c =
     (let keep = filter (\<lambda>i. columns dat ! i \<noteq> c) [0..<length (columns dat)]
      in \<lparr>columns = map (\<lambda>i. columns dat ! i) keep,
          rows = map (\<lambda>r. map (\<lambda>i. r ! i) keep) (rows dat)\<rparr>)"

text \<open>
  \<open>pd.concat([a, b], axis = 1)\<close>: the columns of both, row by row; where one table has
  fewer rows than the other its cells are missing.
\<close>

definition concat_columns :: "frame \<Rightarrow> frame \<Rightarrow> frame" where
  "concat_columns a b =
     \<lparr>columns = columns a @ columns b,
      rows = map (\<lambda>i. (if i < length (rows a) then rows a ! i
                        else replicate (length (columns a)) NaN)
                     @ (if i < length (rows b) then rows b ! i
                        else replicate (length (columns b)) NaN))
               [0..<max (length (rows a)) (length (rows b))]\<rparr>"

text \<open>
  \<open>pd.merge(left, right, on = key)\<close>, an inner join of the table so far with one aggregated
  column, whose index carries the key: a row of \<open>left\<close> is joined with every entry of equal
  key, in the order of \<open>left\<close>; a row without an entry is left out. A label that both sides
  have gets the suffixes \<open>_x\<close> and \<open>_y\<close>; a column of \<open>right\<close> with the label of the key
  itself is refused as ambiguous.
\<close>

definition merge :: "frame \<Rightarrow> grouped \<Rightarrow> string \<Rightarrow> error + frame" where
  "merge left right on_key =
     (case get_loc on_key (columns left) of
        None \<Rightarrow> Inl KeyError
      | Some kp \<Rightarrow>
          if index_name right \<noteq> on_key then Inl KeyError
          else if value_name right = on_key then Inl ValueError
          else Inr
            \<lparr>columns =
               (if value_name right \<in> set (columns left)
                then map (\<lambda>c. if c = value_name right then c @ ''_x'' else c) (columns left)
                       @ [value_name right @ ''_y'']
                else columns left @ [value_name right]),
             rows = concat (map (\<lambda>l. map (\<lambda>e. l @ [snd e])
                                      (filter (\<lambda>e. py_key (fst e) = py_key (l ! kp))
                                         (entries right)))
                             (rows left))\<rparr>)"

subsection \<open>Aggregating according to the instructions\<close>

text \<open>
  The table of instructions: its two column labels and its rows, each a variable and the
  name of a function. \<open>aggregate_data\<close> assigns to \<open>aggregation_information.columns\<close>, which
  writes into the caller's table; so the model returns the table as the call leaves it
  beside the result. Every later assignment to the name \<open>aggregation_information\<close> binds a
  new table. The third component is what the call writes: the progress bar of its loop
  over the instructions, when it gets as far as the loop.
\<close>

record agg_table =
  at_columns :: "string \<times> string"
  at_rows :: "(string \<times> string) list"

text \<open>
  The dummies. \<open>pd.get_dummies\<close> belongs to pandas and is the parameter \<open>get_dummies\<close>,
  from the selected columns and the prefixes to the table of indicator columns.
\<close>

definition add_dummies ::
  "(frame \<Rightarrow> string list \<Rightarrow> error + frame) \<Rightarrow> frame \<Rightarrow> (string \<times> string) list
     \<Rightarrow> error + frame \<times> (string \<times> string) list" where
  "add_dummies get_dummies dat instructions =
     (let dummies = map fst (filter (\<lambda>i. snd i = ''dummy'') instructions)
      in if length dummies > 0 then
           (case select_columns dat dummies of
              Inl e \<Rightarrow> Inl e
            | Inr selected \<Rightarrow>
                (case get_dummies selected dummies of
                   Inl e \<Rightarrow> Inl e
                 | Inr dat_dummies \<Rightarrow>
                     Inr (concat_columns dat dat_dummies,
                          filter (\<lambda>i. fst i \<notin> set dummies)
                            (instructions @ map (\<lambda>var. (var, ''max'')) (columns dat_dummies)))))
         else Inr (dat, instructions))"

fun aggregate_loop ::
  "agg_by_name \<Rightarrow> frame \<Rightarrow> string \<Rightarrow> (string \<times> string) list \<Rightarrow> frame
     \<Rightarrow> error + frame" where
  "aggregate_loop named dat aggregation_variable [] data_aggregated = Inr data_aggregated"
| "aggregate_loop named dat aggregation_variable (i # rest) data_aggregated =
     (case aggregate_col named dat aggregation_variable (fst i) (snd i) of
        Inl e \<Rightarrow> Inl e
      | Inr aggregated_col \<Rightarrow>
          (case merge data_aggregated aggregated_col aggregation_variable of
             Inl e \<Rightarrow> Inl e
           | Inr merged \<Rightarrow> aggregate_loop named dat aggregation_variable rest merged))"

definition aggregate_data ::
  "agg_by_name \<Rightarrow> (frame \<Rightarrow> string list \<Rightarrow> error + frame) \<Rightarrow> frame \<Rightarrow> agg_table
     \<Rightarrow> string \<Rightarrow> (error + frame) \<times> agg_table \<times> event list" where
  "aggregate_data named get_dummies data aggregation_information aggregation_variable =
     (let renamed = aggregation_information\<lparr>at_columns := (''variable'', ''agg_function'')\<rparr>
      in (case add_dummies get_dummies data (at_rows renamed) of
            Inl e \<Rightarrow> (Inl e, renamed, [])
          | Inr (dat, instructions) \<Rightarrow>
              (case get_loc aggregation_variable (columns dat) of
                 None \<Rightarrow> (Inl KeyError, renamed, [])
               | Some kp \<Rightarrow>
                   (aggregate_loop named dat aggregation_variable instructions
                      \<lparr>columns = [aggregation_variable],
                       rows = map (\<lambda>k. [k])
                                (drop_duplicates (map (\<lambda>r. r ! kp) (rows dat)))\<rparr>,
                    renamed, [Progress_bar (length instructions)]))))"

text \<open>\<open>pd.get_dummies\<close> on columns of text, for the evaluation of examples: one indicator
  column for each text of a column, in order, labelled by prefix and text. Columns that
  hold anything else are outside this instance.\<close>

definition dummies_of_column :: "string \<Rightarrow> cell list \<Rightarrow> (string \<times> cell list) list" where
  "dummies_of_column prefix col =
     map (\<lambda>level. (prefix @ ''_'' @ level,
                    map (\<lambda>v. IntVal (if v = StrVal level then 1 else 0)) col))
       (sort (remdups (concat (map (\<lambda>v. case v of StrVal s \<Rightarrow> [s] | _ \<Rightarrow> []) col))))"

definition get_dummies_text :: "frame \<Rightarrow> string list \<Rightarrow> error + frame" where
  "get_dummies_text selected prefix =
     (if length prefix = length (columns selected)
         \<and> list_all (list_all (\<lambda>v. case v of StrVal s \<Rightarrow> True | _ \<Rightarrow> isna v)) (rows selected)
      then (let cols = concat (map (\<lambda>j. dummies_of_column (prefix ! j)
                                          (map (\<lambda>r. r ! j) (rows selected)))
                                [0..<length prefix])
            in Inr \<lparr>columns = map fst cols,
                    rows = map (\<lambda>i. map (\<lambda>c. snd c ! i) cols) [0..<length (rows selected)]\<rparr>)
      else Inl ValueError)"

section \<open>Splitting several variables\<close>

text \<open>
  The table of instructions of the split: its two column labels and its rows, each a
  variable and its dictionary of values and labels (the table holds the dictionary as
  text; \<open>ast.literal_eval\<close> reads it). \<open>split_multiple_categorical_vars\<close> assigns to
  \<open>split_info.columns\<close>, which writes into the caller's table; so the model returns the
  table as the call leaves it beside the result. The third component is what the call
  writes: the progress bar of its loop over the instructions.
\<close>

record split_table =
  st_columns :: "string \<times> string"
  st_rows :: "(string \<times> value_label_map) list"

fun split_multiple_loop :: "(string \<times> value_label_map) list \<Rightarrow> frame \<Rightarrow> error + frame" where
  "split_multiple_loop [] dat = Inr dat"
| "split_multiple_loop (i # rest) dat =
     (case get_loc (fst i) (columns dat) of
        None \<Rightarrow> Inl KeyError
      | Some p \<Rightarrow>
          (case split_categorical_vars (map (\<lambda>r. Scalar (r ! p)) (rows dat)) (snd i) of
             Inl e \<Rightarrow> Inl e
           | Inr split_variable \<Rightarrow>
               split_multiple_loop rest
                 (concat_columns (drop_column dat (fst i)) split_variable)))"

definition split_multiple_categorical_vars ::
  "frame \<Rightarrow> split_table \<Rightarrow> (error + frame) \<times> split_table \<times> event list" where
  "split_multiple_categorical_vars data split_info =
     (let renamed = split_info\<lparr>st_columns := (''variable_name'', ''values_and_labels'')\<rparr>
      in (split_multiple_loop (st_rows renamed) data, renamed,
          [Progress_bar (length (st_rows renamed))]))"

section \<open>The entry points on the objects of their caller\<close>

text \<open>
  A pandas table is an object: a function that is given one can write into it, and
  what it writes the caller sees. The store holds the objects, each known by its
  position; a new object goes to the end. \<open>x.copy()\<close>, \<open>reset_index\<close>, \<open>drop\<close>, \<open>concat\<close>,
  \<open>merge\<close> and \<open>pd.DataFrame(...)\<close> make a new object; an assignment to \<open>x.columns\<close> or to
  \<open>x.loc[i, c]\<close> writes into the object \<open>x\<close>. A reference that is not the kind of object
  the function works on makes it fail.
\<close>

datatype obj = Table frame | Split_info split_table | Agg_info agg_table | Lookup lookup

type_synonym store = "obj list"

definition deref :: "store \<Rightarrow> nat \<Rightarrow> obj option" where
  "deref h r = (if r < length h then Some (h ! r) else None)"

definition new :: "store \<Rightarrow> obj \<Rightarrow> store \<times> nat" where
  "new h ob = (h @ [ob], length h)"

text \<open>
  What a call leaves behind: the store, what it has written for its user to see, and the
  exception it raises or the object it returns.
\<close>

type_synonym pipeline_state = "store \<times> event list \<times> (error + nat)"

text \<open>\<open>split_multiple_categorical_vars\<close>: the copy \<open>dat\<close>, the assignment to
  \<open>split_info.columns\<close>, the loop with its progress bar, and the table returned, a new
  object.\<close>

definition split_multiple_categorical_vars_on :: "store \<Rightarrow> nat \<Rightarrow> nat \<Rightarrow> pipeline_state" where
  "split_multiple_categorical_vars_on h data split_info =
     (case (deref h data, deref h split_info) of
        (Some (Table d), Some (Split_info t)) \<Rightarrow>
          (let (h1, dat) = new h (Table d);
               (result, renamed, written) = split_multiple_categorical_vars d t;
               h2 = h1[split_info := Split_info renamed]
           in (case result of
                 Inl e \<Rightarrow> (h2, written, Inl e)
               | Inr f \<Rightarrow> (case new h2 (Table f) of (h3, r) \<Rightarrow> (h3, written, Inr r))))
      | _ \<Rightarrow> (h, [], Inl TypeError))"

text \<open>\<open>get_lookup\<close>: works on a copy and returns a new table; it writes nothing.\<close>

definition get_lookup_on :: "store \<Rightarrow> nat \<Rightarrow> pipeline_state" where
  "get_lookup_on h df =
     (case deref h df of
        Some (Table d) \<Rightarrow>
          (let (h1, df_rawstring_index) = new h (Table d)
           in (case get_lookup d of
                 Inl e \<Rightarrow> (h1, [], Inl e)
               | Inr lk \<Rightarrow> (case new h1 (Lookup lk) of (h2, r) \<Rightarrow> (h2, [], Inr r))))
      | _ \<Rightarrow> (h, [], Inl TypeError))"

text \<open>\<open>normalize_data\<close>: reads the table and the lookup, draws its progress bar, prints,
  and returns a new table.\<close>

definition normalize_data_on :: "store \<Rightarrow> nat \<Rightarrow> nat \<Rightarrow> string \<Rightarrow> pipeline_state" where
  "normalize_data_on h data lk normalization_variable =
     (case (deref h data, deref h lk) of
        (Some (Table d), Some (Lookup l)) \<Rightarrow>
          (case normalize_data d l normalization_variable of
             (printed, Inl e) \<Rightarrow> (h, printed, Inl e)
           | (printed, Inr f) \<Rightarrow> (case new h (Table f) of (h1, r) \<Rightarrow> (h1, printed, Inr r)))
      | _ \<Rightarrow> (h, [], Inl TypeError))"

text \<open>
  \<open>repl_with_agg_string\<close>: \<open>data_updated\<close> is a copy, and after \<open>reset_index\<close> another new
  object; the loop writes into that object, turn by turn. The loop has no progress bar
  and the function prints nothing.
\<close>

fun repl_loop_on ::
  "string \<Rightarrow> replacement_dict \<Rightarrow> nat list \<Rightarrow> store \<Rightarrow> nat \<Rightarrow> store \<times> (error + nat)" where
  "repl_loop_on column d [] h data_updated = (h, Inr data_updated)"
| "repl_loop_on column d (ind # rest) h data_updated =
     (case deref h data_updated of
        Some (Table f) \<Rightarrow>
          (case repl_loop column d [ind] f of
             Inl e \<Rightarrow> (h, Inl e)
           | Inr f' \<Rightarrow> repl_loop_on column d rest (h[data_updated := Table f']) data_updated)
      | _ \<Rightarrow> (h, Inl TypeError))"

definition repl_with_agg_string_on ::
  "store \<Rightarrow> nat \<Rightarrow> string \<Rightarrow> replacement_dict \<Rightarrow> pipeline_state" where
  "repl_with_agg_string_on h data column replacement_string_dict =
     (case deref h data of
        Some (Table d) \<Rightarrow>
          (let (h1, copied) = new h (Table d);
               (h2, data_updated) = new h1 (Table d)
           in (case repl_loop_on column replacement_string_dict [0..<length (rows d)] h2
                       data_updated of
                 (h3, res) \<Rightarrow> (h3, [], res)))
      | _ \<Rightarrow> (h, [], Inl TypeError))"


text \<open>
  \<open>create_data\<close>: the stages in their fixed order, each skipped when its configuration is
  \<open>None\<close>; the first exception ends the call. The state between the stages is the store,
  what has been written, and the table \<open>dat\<close>.
\<close>

record configuration =
  split_info :: "nat option"
  normalization_info :: "nat option"
  normalization_variable :: string
  aggregation_category_dict :: "replacement_dict option"
  aggregation_category_variable :: string
  aggregation_information :: "nat option"
  aggregation_variable :: string


definition split_stage :: "configuration \<Rightarrow> pipeline_state \<Rightarrow> pipeline_state" where
  "split_stage cfg st =
     (case (st, split_info cfg) of
        ((h, printed, Inr dat), Some si) \<Rightarrow>
          (case split_multiple_categorical_vars_on h dat si of
             (h1, written, res) \<Rightarrow> (h1, printed @ written, res))
      | _ \<Rightarrow> st)"

definition normalization_stage :: "configuration \<Rightarrow> pipeline_state \<Rightarrow> pipeline_state" where
  "normalization_stage cfg st =
     (case (st, normalization_info cfg) of
        ((h, printed, Inr dat), Some ni) \<Rightarrow>
          (case get_lookup_on h ni of
             (h1, written, Inl e) \<Rightarrow> (h1, printed @ written, Inl e)
           | (h1, written, Inr norm_dict) \<Rightarrow>
               (case normalize_data_on h1 dat norm_dict (normalization_variable cfg) of
                  (h2, lines, res) \<Rightarrow> (h2, printed @ written @ lines, res)))
      | _ \<Rightarrow> st)"

definition category_stage :: "configuration \<Rightarrow> pipeline_state \<Rightarrow> pipeline_state" where
  "category_stage cfg st =
     (case (st, aggregation_category_dict cfg) of
        ((h, printed, Inr dat), Some d) \<Rightarrow>
          (case repl_with_agg_string_on h dat (aggregation_category_variable cfg) d of
             (h1, written, res) \<Rightarrow> (h1, printed @ written, res))
      | _ \<Rightarrow> st)"



section \<open>Auxiliary descriptions\<close>


text \<open>The responses that the splitter takes without an exception: NaN, a text, an
  integer, and a list of at most one element.\<close>

fun accepted :: "response \<Rightarrow> bool" where
  "accepted (Scalar (StrVal s)) = True"
| "accepted (Scalar (IntVal i)) = True"
| "accepted (Scalar NaN) = True"
| "accepted (Scalar (FloatVal r)) = False"
| "accepted (Scalar NoneVal) = False"
| "accepted (Listlike xs) = (length xs \<le> 1)"


text \<open>What one row adds to \<open>normalized_data\<close>.\<close>

definition normalized_copies :: "lookup \<Rightarrow> nat \<Rightarrow> cell list \<Rightarrow> cell list list" where
  "normalized_copies lk pos row =
     (case lower (row ! pos) of Inl e \<Rightarrow> [] | Inr key \<Rightarrow> replace row (lookup_loc lk key) pos)"

text \<open>A row with its cell replaced by the group label.\<close>

definition relabel :: "replacement_dict \<Rightarrow> nat \<Rightarrow> cell list \<Rightarrow> cell list" where
  "relabel d c r = (case dict_getitem d (r ! c) of Inl e \<Rightarrow> r | Inr l \<Rightarrow> r[c := StrVal l])"

text \<open>Tables for the examples.\<close>

definition sightings :: frame where
  "sightings =
     \<lparr>columns = [''species'', ''seen'', ''place''],
      rows = [[StrVal ''owl'', IntVal 1, StrVal ''az''],
              [StrVal ''owl'', IntVal 3, StrVal ''nm''],
              [StrVal ''hawk'', FloatVal 3, StrVal ''az''],
              [NaN, IntVal 3, StrVal ''az''],
              [StrVal ''crow'', NaN, NaN]]\<rparr>"

definition org_lookup :: lookup where
  "org_lookup = [(StrVal ''gha'', StrVal ''gila woodpecker''),
                 (StrVal ''gha'', StrVal ''gila thrasher'')]"

definition seen_three_and_place :: agg_table where
  "seen_three_and_place =
     \<lparr>at_columns = (''variable'', ''function''),
      at_rows = [(''seen'', ''three''), (''place'', ''dummy'')]\<rparr>"

text \<open>
  What a call may do to the objects of its caller: \<open>relabelled\<close>, the table of
  instructions with its column labels overwritten by the fixed ones and its rows as they
  were; \<open>preserves ws h h'\<close>, every object of \<open>h\<close> is in \<open>h'\<close> as it was, except that an
  object at a position of \<open>ws\<close> may be relabelled.
\<close>

definition relabelled :: "obj \<Rightarrow> obj \<Rightarrow> bool" where
  "relabelled old changed =
     (case old of
        Split_info t \<Rightarrow>
          changed = Split_info (t\<lparr>st_columns := (''variable_name'', ''values_and_labels'')\<rparr>)
      | Agg_info t \<Rightarrow> changed = Agg_info (t\<lparr>at_columns := (''variable'', ''agg_function'')\<rparr>)
      | _ \<Rightarrow> False)"

definition preserves :: "nat list \<Rightarrow> store \<Rightarrow> store \<Rightarrow> bool" where
  "preserves ws h h' =
     (length h \<le> length h'
      \<and> (\<forall>r<length h. h' ! r = h ! r \<or> (r \<in> set ws \<and> relabelled (h ! r) (h' ! r))))"







text \<open>What a call returns is a new object: its position is beyond the store it was
  given.\<close>

definition returns_new :: "store \<Rightarrow> error + nat \<Rightarrow> bool" where
  "returns_new h res = (case res of Inl e \<Rightarrow> True | Inr r \<Rightarrow> length h \<le> r)"
section \<open>Properties of the splitter\<close>


lemma index_of_less: "k \<in> set keys \<Longrightarrow> index_of k keys < length keys"
  by (induction keys) auto








lemma split_response_accepted: "accepted v \<Longrightarrow> \<exists>add. split_response vl v = Inr add"
  by (cases v rule: accepted.cases) (simp_all add: split_response_def Let_def)


lemma split_response_no_length:
  "v = Scalar NoneVal \<or> (\<exists>r. v = Scalar (FloatVal r)) \<Longrightarrow> split_response vl v = Inl TypeError"
  by (auto simp: split_response_def)

lemma split_response_long_list:
  "1 < length xs \<Longrightarrow> split_response vl (Listlike xs) = Inl AttributeError"
  by (simp add: split_response_def)


lemma split_loop_prefix:
  "list_all accepted pre \<Longrightarrow> \<exists>acc'. split_loop vl (pre @ rest) acc = split_loop vl rest acc'"
proof (induction pre arbitrary: acc)
  case Nil
  then show ?case by auto
next
  case (Cons v pre)
  then obtain add where "split_response vl v = Inr add"
    using split_response_accepted [of v vl] by auto
  then show ?case using Cons.IH [of "acc @ [add]"] Cons.prems by simp
qed

lemma split_loop_raises:
  assumes "list_all accepted pre" and "split_response vl v = Inl e"
  shows "split_loop vl (pre @ v # post) acc = Inl e"
proof -
  obtain acc' where "split_loop vl (pre @ v # post) acc = split_loop vl (v # post) acc'"
    using split_loop_prefix [OF assms(1)] by blast
  then show ?thesis using assms(2) by simp
qed




text \<open>
  Claim C10, as the code has it. The first response that the splitter does not take
  decides. If it has no length (\<open>None\<close>, or a float that is not NaN),
  \<open>split_categorical_vars\<close> raises \<open>TypeError\<close>, from \<open>len\<close>. If it is a list of more than
  one element, \<open>len\<close> succeeds and the function raises \<open>AttributeError\<close>, from \<open>.split\<close>. A
  list of at most one element raises nothing: a series of NaN, text, integers and such
  lists gives a table.
\<close>

theorem split_categorical_vars_type_error:
  "(list_all accepted pre \<and> (v = Scalar NoneVal \<or> (\<exists>r. v = Scalar (FloatVal r)))
      \<longrightarrow> split_categorical_vars (pre @ v # post) vl = Inl TypeError)
   \<and> (list_all accepted pre \<and> 1 < length xs
      \<longrightarrow> split_categorical_vars (pre @ Listlike xs # post) vl = Inl AttributeError)
   \<and> (list_all accepted series \<longrightarrow> (\<exists>out. split_categorical_vars series vl = Inr out))"
proof (intro conjI impI)
  assume a: "list_all accepted pre \<and> (v = Scalar NoneVal \<or> (\<exists>r. v = Scalar (FloatVal r)))"
  then have "split_response vl v = Inl TypeError"
    using split_response_no_length by blast
  then have "split_loop vl (pre @ v # post) [] = Inl TypeError"
    using a split_loop_raises by blast
  then show "split_categorical_vars (pre @ v # post) vl = Inl TypeError"
    by (simp add: split_categorical_vars_def)
next
  assume a: "list_all accepted pre \<and> 1 < length xs"
  then have "split_response vl (Listlike xs) = Inl AttributeError"
    using split_response_long_list by blast
  then have "split_loop vl (pre @ Listlike xs # post) [] = Inl AttributeError"
    using a split_loop_raises by blast
  then show "split_categorical_vars (pre @ Listlike xs # post) vl = Inl AttributeError"
    by (simp add: split_categorical_vars_def)
next
  assume "list_all accepted series"
  then obtain acc' where "split_loop vl (series @ []) [] = split_loop vl [] acc'"
    using split_loop_prefix by blast
  then show "\<exists>out. split_categorical_vars series vl = Inr out"
    by (simp add: split_categorical_vars_def)
qed

theorem split_categorical_vars_type_error_witness:
  "split_categorical_vars [Scalar (StrVal ''1''), Scalar NoneVal] [(''1'', ''morning'')]
     = Inl TypeError
   \<and> split_categorical_vars [Scalar (StrVal ''1''), Scalar (FloatVal (5 / 2))]
       [(''1'', ''morning'')] = Inl TypeError"
proof -
  let ?pre = "[Scalar (StrVal ''1'')]" and ?vl = "[(''1'', ''morning'')]"
  have h1: "list_all accepted ?pre
      \<and> (Scalar NoneVal = Scalar NoneVal \<or> (\<exists>r. Scalar NoneVal = Scalar (FloatVal r)))"
    by simp
  have h2: "list_all accepted ?pre
      \<and> (Scalar (FloatVal (5 / 2)) = Scalar NoneVal
         \<or> (\<exists>r. Scalar (FloatVal (5 / 2)) = Scalar (FloatVal r)))"
    by (intro conjI disjI2 exI [of _ "5 / 2"]) simp_all
  have "split_categorical_vars (?pre @ Scalar NoneVal # []) ?vl = Inl TypeError"
    using split_categorical_vars_type_error [of ?pre "Scalar NoneVal" "[]" ?vl] h1 by blast
  moreover have "split_categorical_vars (?pre @ Scalar (FloatVal (5 / 2)) # []) ?vl = Inl TypeError"
    using split_categorical_vars_type_error [of ?pre "Scalar (FloatVal (5 / 2))" "[]" ?vl] h2
    by blast
  ultimately show ?thesis by simp
qed

text \<open>
  Claim C10 fails as stated: a list is neither text, nor an integer, nor NaN, and no
  \<open>TypeError\<close> comes of it. For the list of \<open>1\<close> and \<open>3\<close> the function raises
  \<open>AttributeError\<close>; for the list of \<open>1\<close> alone it raises nothing and returns a row, all
  0, because the one token is the text of the list in brackets.
\<close>

theorem split_categorical_vars_list_response:
  "split_categorical_vars [Listlike [StrVal ''1'', StrVal ''3'']]
      [(''1'', ''morning''), (''3'', ''evening'')] = Inl AttributeError
   \<and> split_categorical_vars [Listlike [StrVal ''1'']]
       [(''1'', ''morning''), (''3'', ''evening'')] =
       Inr \<lparr>columns = [''morning'', ''evening''], rows = [[IntVal 0, IntVal 0]]\<rparr>"
  by code_simp

section \<open>Properties of the normalization\<close>


lemma normalize_loop_text:
  assumes "get_loc var cols = Some pos"
    and "\<forall>r\<in>set rs. \<exists>s. r ! pos = StrVal s"
  shows "snd (normalize_loop cols lk var rs acc pr) =
         Inr (acc @ concat (map (normalized_copies lk pos) rs))"
  using assms(2)
proof (induction rs arbitrary: acc pr)
  case Nil
  then show ?case by simp
next
  case (Cons r rs)
  then obtain s where s: "r ! pos = StrVal s" by auto
  have rest: "\<forall>r\<in>set rs. \<exists>s. r ! pos = StrVal s" using Cons.prems by simp
  show ?case
  proof (cases "lookup_loc lk (str_lower s) = []")
    case True
    then show ?thesis using assms(1) s Cons.IH [OF rest]
      by (simp add: normalized_copies_def)
  next
    case False
    then show ?thesis using assms(1) s Cons.IH [OF rest]
      by (simp add: normalized_copies_def)
  qed
qed

lemma normalize_data_text:
  assumes "get_loc var (columns data) = Some pos"
    and "\<forall>r\<in>set (rows data). \<exists>s. r ! pos = StrVal s"
  shows "snd (normalize_data data lk var) =
         Inr (DataFrame_of_rows (concat (map (normalized_copies lk pos) (rows data)))
                (columns data))"
proof -
  let ?bar = "[Progress_bar (length (rows data))]"
  obtain pr res where r: "normalize_loop (columns data) lk var (rows data) [] ?bar = (pr, res)"
    by (cases "normalize_loop (columns data) lk var (rows data) [] ?bar")
  have "snd (normalize_loop (columns data) lk var (rows data) [] ?bar) =
        Inr ([] @ concat (map (normalized_copies lk pos) (rows data)))"
    using assms by (rule normalize_loop_text)
  then have "res = Inr (concat (map (normalized_copies lk pos) (rows data)))" using r by simp
  then show ?thesis using r by (simp add: normalize_data_def)
qed






lemma normalize_loop_error:
  assumes "get_loc var cols = Some pos"
    and "\<exists>r\<in>set rs. \<forall>s. r ! pos \<noteq> StrVal s"
  shows "snd (normalize_loop cols lk var rs acc pr) = Inl AttributeError"
  using assms(2)
proof (induction rs arbitrary: acc pr)
  case Nil
  then show ?case by simp
next
  case (Cons r rs)
  show ?case
  proof (cases "r ! pos")
    case (StrVal s)
    then have "\<exists>r\<in>set rs. \<forall>s. r ! pos \<noteq> StrVal s" using Cons.prems by auto
    then show ?thesis using assms(1) StrVal Cons.IH by (simp add: Let_def)
  qed (use assms(1) in simp_all)
qed

text \<open>The raw strings of a lookup that \<open>get_lookup\<close> has built are lowercase text.\<close>

lemma lower_char_idem: "lower_char (lower_char c) = lower_char c"
proof -
  let ?n = "of_char c :: nat"
  have "?n < 256" by simp
  then have "(of_char (char_of (?n + 32) :: char) :: nat) = ?n + 32" if "?n \<le> 222"
    using that by simp
  then show ?thesis
    by (auto simp: lower_char_def Let_def)
qed

lemma str_lower_idem: "str_lower (str_lower s) = str_lower s"
  by (simp add: str_lower_def lower_char_idem)

lemma lookup_entries_lowercase:
  "\<forall>entry\<in>set (lookup_entries r). \<exists>t. fst entry = StrVal t \<and> str_lower t = t"
proof -
  have "str_lower (str_lower (py_str (hd r))) = str_lower (py_str (hd r))"
    by (rule str_lower_idem)
  then show ?thesis by (auto simp: lookup_entries_def)
qed

lemma length_infer_column: "length (infer_column col) = length col"
  by (simp add: infer_column_def)

lemma get_lookup_lowercase:
  assumes "get_lookup df = Inr lk"
  shows "\<forall>entry\<in>set lk. \<exists>t. fst entry = StrVal t \<and> str_lower t = t"
proof
  fix entry assume e: "entry \<in> set lk"
  define nd where "nd = concat (map lookup_entries
     (drop_duplicate_rows [] (map (\<lambda>r. str_accessor_lower (hd r) # tl r) (rows df))))"
  have "get_lookup df = Inl IndexError \<or> get_lookup df = Inl AttributeError
      \<or> get_lookup df = Inr (zip (map fst nd) (infer_column (map snd nd)))"
    unfolding get_lookup_def nd_def Let_def by simp
  then have lk: "lk = zip (map fst nd) (infer_column (map snd nd))"
    using assms by auto
  obtain x y where xy: "entry = (x, y)" by (cases entry)
  then have "x \<in> set (map fst nd)"
    using e unfolding lk by (auto dest: set_zip_leftD)
  then obtain entry' where e': "entry' \<in> set nd" "x = fst entry'" by auto
  then obtain r where "entry' \<in> set (lookup_entries r)" unfolding nd_def by auto
  then have "\<exists>t. fst entry' = StrVal t \<and> str_lower t = t"
    using lookup_entries_lowercase by blast
  then show "\<exists>t. fst entry = StrVal t \<and> str_lower t = t"
    using e'(2) xy by simp
qed

text \<open>
  Claim C1, which the code breaks, at an input. The table has one row, whose organisation
  \<open>xyz\<close> has no entry in the lookup. \<open>normalize_data\<close> draws the progress bar of its loop
  over the one row, prints the line that ends in "Keep original version." and returns a
  table without rows: the row is not kept.
\<close>

theorem normalize_data_drops_unmatched:
  "normalize_data \<lparr>columns = [''org'', ''n''], rows = [[StrVal ''xyz'', IntVal 5]]\<rparr>
         [(StrVal ''gha'', StrVal ''gila woodpecker'')] ''org'' =
   ([Progress_bar 1,
     Printed ''No entry found for xyz in normalization_info. Keep original version.''],
    Inr \<lparr>columns = [''org'', ''n''], rows = []\<rparr>)"
  by (simp add: normalize_data_def lookup_loc_def no_entry_message_def str_lower_def lower_char_def
      DataFrame_of_rows_def)





text \<open>
  Claim C9. Let the variable be a column of the table. If some row holds in it a value
  that is not text (the missing marker NaN, for one), \<open>normalize_data\<close> raises
  \<open>AttributeError\<close>, from the lowercasing of that value; it returns a table exactly when
  every row holds text in the column.
\<close>

theorem normalize_data_non_text:
  assumes "get_loc var (columns data) = Some pos"
  shows "(if \<forall>r\<in>set (rows data). \<exists>s. r ! pos = StrVal s
          then \<exists>out. snd (normalize_data data lk var) = Inr out
          else snd (normalize_data data lk var) = Inl AttributeError)"
proof (cases "\<forall>r\<in>set (rows data). \<exists>s. r ! pos = StrVal s")
  case True
  then show ?thesis
    using normalize_data_text [OF assms, of lk] by simp
next
  case False
  then have "\<exists>r\<in>set (rows data). \<forall>s. r ! pos \<noteq> StrVal s" by blast
  then have "snd (normalize_loop (columns data) lk var (rows data) []
                    [Progress_bar (length (rows data))]) = Inl AttributeError"
    using assms by (rule normalize_loop_error [rotated])
  then show ?thesis using False
    by (auto simp: normalize_data_def split: prod.splits sum.splits)
qed

theorem normalize_data_non_text_witness:
  "snd (normalize_data \<lparr>columns = [''org'', ''n''], rows = [[StrVal ''GHA'', IntVal 5], [NaN, IntVal 7]]\<rparr>
          org_lookup ''org'') = Inl AttributeError"
  using normalize_data_non_text
    [of "''org''" "\<lparr>columns = [''org'', ''n''], rows = [[StrVal ''GHA'', IntVal 5], [NaN, IntVal 7]]\<rparr>" 0 org_lookup]
  by simp

section \<open>Properties of the replacement by aggregation strings\<close>

lemma dict_getitem_error: "dict_getitem d v = Inl e \<Longrightarrow> e = KeyError"
  by (cases v) (auto split: option.splits)

lemma repl_loop_upt:
  assumes "get_loc column cols = Some c"
  shows "length rs = n \<Longrightarrow> i \<le> n \<Longrightarrow>
     repl_loop column d [i..<n] \<lparr>columns = cols, rows = rs\<rparr> =
       (if \<forall>r\<in>set (drop i rs). \<exists>l. dict_getitem d (r ! c) = Inr l
        then Inr \<lparr>columns = cols, rows = take i rs @ map (relabel d c) (drop i rs)\<rparr>
        else Inl KeyError)"
proof (induction "n - i" arbitrary: i rs)
  case 0
  then show ?case by simp
next
  case (Suc k)
  then have i: "i < n" and len: "length rs = n" by auto
  have upt: "[i..<n] = i # [Suc i..<n]" using i by (simp add: upt_conv_Cons)
  have drop: "drop i rs = rs ! i # drop (Suc i) rs"
    using i len by (simp add: Cons_nth_drop_Suc)
  show ?case
  proof (cases "dict_getitem d (rs ! i ! c)")
    case (Inl e)
    then have "e = KeyError" by (rule dict_getitem_error)
    then show ?thesis using Inl assms upt drop by auto
  next
    case (Inr l)
    let ?rs = "rs[i := (rs ! i)[c := StrVal l]]"
    have k: "k = n - Suc i" using Suc.hyps(2) by simp
    have IH: "repl_loop column d [Suc i..<n] \<lparr>columns = cols, rows = ?rs\<rparr> =
       (if \<forall>r\<in>set (drop (Suc i) ?rs). \<exists>l. dict_getitem d (r ! c) = Inr l
        then Inr \<lparr>columns = cols, rows = take (Suc i) ?rs @ map (relabel d c) (drop (Suc i) ?rs)\<rparr>
        else Inl KeyError)"
      using Suc.hyps(1) [OF k, of ?rs] i len by simp
    have d': "drop (Suc i) ?rs = drop (Suc i) rs" by simp
    have t': "take (Suc i) ?rs = take i rs @ [relabel d c (rs ! i)]"
      using i len Inr by (simp add: take_Suc_conv_app_nth relabel_def)
    show ?thesis
      unfolding upt using assms Inr IH d' t' drop by simp
  qed
qed

text \<open>
  Claim C5. Let the column be a column of the table. If every value of the column is a
  key of the dictionary, \<open>repl_with_agg_string\<close> returns the table with every value of
  the column replaced by its group label and nothing else changed. If some value is not
  a key, it raises \<open>KeyError\<close> and returns no table: no value passes unmapped.
\<close>

theorem repl_with_agg_string_total_or_key_error:
  assumes "get_loc column (columns data) = Some c"
  shows "(if \<forall>r\<in>set (rows data). \<exists>s l. r ! c = StrVal s \<and> map_of d s = Some l
          then repl_with_agg_string data column d =
                 Inr \<lparr>columns = columns data,
                      rows = map (\<lambda>r. case r ! c of
                                StrVal s \<Rightarrow> (case map_of d s of Some l \<Rightarrow> r[c := StrVal l] | None \<Rightarrow> r)
                              | _ \<Rightarrow> r) (rows data)\<rparr>
          else repl_with_agg_string data column d = Inl KeyError)"
proof -
  have key: "(\<exists>l. dict_getitem d v = Inr l) \<longleftrightarrow> (\<exists>s l. v = StrVal s \<and> map_of d s = Some l)" for v
    by (cases v) (auto split: option.splits)
  have rel: "relabel d c = (\<lambda>r. case r ! c of
                                StrVal s \<Rightarrow> (case map_of d s of Some l \<Rightarrow> r[c := StrVal l] | None \<Rightarrow> r)
                              | _ \<Rightarrow> r)"
    by (rule ext) (auto simp: relabel_def split: cell.splits option.splits)
  have d: "data = \<lparr>columns = columns data, rows = rows data\<rparr>" by simp
  have "repl_with_agg_string data column d =
        repl_loop column d [0..<length (rows data)] \<lparr>columns = columns data, rows = rows data\<rparr>"
    using d by (metis repl_with_agg_string_def)
  then show ?thesis
    using repl_loop_upt [OF assms, of "rows data" "length (rows data)" 0 d]
    by (simp add: key rel)
qed

theorem repl_with_agg_string_witness:
  "repl_with_agg_string
     \<lparr>columns = [''org'', ''n''], rows = [[StrVal ''gila woodpecker'', IntVal 5]]\<rparr>
     ''org'' [(''gila woodpecker'', ''woodpecker'')] =
   Inr \<lparr>columns = [''org'', ''n''], rows = [[StrVal ''woodpecker'', IntVal 5]]\<rparr>"
  using repl_with_agg_string_total_or_key_error
    [of "''org''" "\<lparr>columns = [''org'', ''n''], rows = [[StrVal ''gila woodpecker'', IntVal 5]]\<rparr>"
        0 "[(''gila woodpecker'', ''woodpecker'')]"]
  by simp

section \<open>Properties of the aggregation of one column\<close>

lemma py_key_int: "py_key c = IntVal n \<longleftrightarrow> c = IntVal n \<or> c = FloatVal (of_int n)"
proof (cases c)
  case (FloatVal r)
  show ?thesis
  proof (cases "r = of_int \<lfloor>r\<rfloor>")
    case True
    have "(\<lfloor>r\<rfloor> = n) = (r = of_int n)"
    proof
      assume "\<lfloor>r\<rfloor> = n" then show "r = of_int n" using True by simp
    next
      assume "r = of_int n" then show "\<lfloor>r\<rfloor> = n" by simp
    qed
    then show ?thesis using FloatVal True by simp
  next
    case False
    then have "r \<noteq> of_int n" by auto
    then show ?thesis using FloatVal False by simp
  qed
qed auto

lemma isna_py_key: "isna (py_key c) = isna c"
  by (cases c) auto

lemma isna_not_number: "isna c \<Longrightarrow> py_key c \<noteq> IntVal n"
  by (cases c) auto

lemma number_flags:
  "n \<noteq> 0 \<Longrightarrow> set_where_equal n (set_where_not_equal n df) =
     map (\<lambda>v. IntVal (if py_key v = IntVal n then 1 else 0)) df"
  by (simp add: set_where_equal_def set_where_not_equal_def)

lemma max_loop_flags:
  "max_loop (IntVal (if b then 1 else 0)) (map (\<lambda>v. IntVal (if P v then 1 else 0)) xs) =
     Inr (IntVal (if b \<or> (\<exists>v\<in>set xs. P v) then 1 else 0))"
proof (induction xs arbitrary: b)
  case Nil
  then show ?case by simp
next
  case (Cons x xs)
  show ?case
    using Cons.IH [of "b \<or> P x"] Cons.IH [of b] by auto
qed

lemma skipna_flags: "skipna (map (\<lambda>v. IntVal (f v)) xs) = map (\<lambda>v. IntVal (f v)) xs"
  by (induction xs) (auto simp: skipna_def)

lemma custom_number_result:
  assumes "n \<noteq> 0" and "df \<noteq> []"
  shows "custom_number n df = Inr (IntVal (if \<exists>v\<in>set df. py_key v = IntVal n then 1 else 0))"
proof -
  obtain x xs where df: "df = x # xs" using assms(2) by (cases df) auto
  let ?F = "\<lambda>v. IntVal (if py_key v = IntVal n then 1 else 0)"
  have "custom_number n df = custom_max (map ?F df)"
    by (simp add: custom_number_def number_flags [OF assms(1)])
  also have "\<dots> = max_loop (?F x) (map ?F xs)"
    using skipna_flags [of "\<lambda>v. if py_key v = IntVal n then 1 else 0" df]
    by (simp add: custom_max_def df Let_def)
  also have "\<dots> = Inr (IntVal (if py_key x = IntVal n \<or> (\<exists>v\<in>set xs. py_key v = IntVal n) then 1 else 0))"
    by (rule max_loop_flags)
  finally show ?thesis by (simp add: df)
qed

lemma set_drop_duplicates_from: "set (drop_duplicates_from seen xs) \<subseteq> set xs"
  by (induction xs arbitrary: seen) auto

lemma group_keys_subset: "set (group_keys kcol) \<subseteq> set kcol"
  using set_drop_duplicates_from [of "[]" "filter (\<lambda>k. \<not> isna k) kcol"]
  by (auto simp: group_keys_def drop_duplicates_def)

lemma group_values_nonempty:
  assumes "g \<in> set (group_keys (map kf rs))"
  shows "group_values (map kf rs) (map vf rs) g \<noteq> []"
proof -
  have "g \<in> set (map kf rs)" using assms group_keys_subset by blast
  then obtain r where "r \<in> set rs" "kf r = g" by auto
  then have "(g, vf r) \<in> set (zip (map kf rs) (map vf rs))"
    by (induction rs) auto
  then have "(g, vf r) \<in> set (filter (\<lambda>kv. py_key (fst kv) = py_key g) (zip (map kf rs) (map vf rs)))"
    by simp
  then show ?thesis unfolding group_values_def by (metis empty_iff empty_set map_is_Nil_conv)
qed

lemma set_group_values:
  "set (group_values (map kf rs) (map vf rs) g) = {vf r |r. r \<in> set rs \<and> py_key (kf r) = py_key g}"
  by (induction rs) (auto simp: group_values_def)

lemma agg_loop_ok:
  "\<forall>g\<in>set gs. f (group_values kcol vcol g) = Inr (h g) \<Longrightarrow>
   agg_loop f kcol vcol gs = Inr (map (\<lambda>g. (g, h g)) gs)"
  by (induction gs) auto

lemma rebind_skip: "s \<noteq> name \<Longrightarrow> rebind name f (Name s) = Name s"
  by (simp add: rebind_def)

lemma rebind_hit: "rebind s f (Name s) = Callable f"
  by (simp add: rebind_def)

lemma rebind_callable: "rebind name f (Callable g) = Callable g"
  by (simp add: rebind_def)

lemma rebind_other:
  assumes "s \<notin> set [''mean'', ''median'', ''max'', ''min'', ''one'', ''two'', ''three'', ''four'', ''five'', ''six'']"
  shows "rebind ''six'' custom_six (rebind ''five'' custom_five (rebind ''four'' custom_four
     (rebind ''three'' custom_three (rebind ''two'' custom_two (rebind ''one'' custom_one
     (rebind ''min'' custom_min (rebind ''max'' custom_max (rebind ''median'' custom_median
     (rebind ''mean'' custom_mean (Name s)))))))))) = Name s"
proof -
  have "s \<noteq> ''mean''" "s \<noteq> ''median''" "s \<noteq> ''max''" "s \<noteq> ''min''" "s \<noteq> ''one''"
    "s \<noteq> ''two''" "s \<noteq> ''three''" "s \<noteq> ''four''" "s \<noteq> ''five''" "s \<noteq> ''six''"
    using assms by simp_all
  then show ?thesis by (simp add: rebind_skip)
qed

lemma rebind_number:
  assumes "(name, n) \<in> set [(''one'', 1), (''two'', 2), (''three'', 3), (''four'', 4), (''five'', 5), (''six'', 6)]"
  shows "rebind ''six'' custom_six (rebind ''five'' custom_five (rebind ''four'' custom_four
     (rebind ''three'' custom_three (rebind ''two'' custom_two (rebind ''one'' custom_one
     (rebind ''min'' custom_min (rebind ''max'' custom_max (rebind ''median'' custom_median
     (rebind ''mean'' custom_mean (Name name)))))))))) = Callable (custom_number n)"
proof -
  have "name = ''one'' \<and> n = 1 \<or> name = ''two'' \<and> n = 2 \<or> name = ''three'' \<and> n = 3
    \<or> name = ''four'' \<and> n = 4 \<or> name = ''five'' \<and> n = 5 \<or> name = ''six'' \<and> n = 6"
    using assms by simp
  then show ?thesis
  proof (elim disjE conjE)
    assume "name = ''one''" "n = 1"
    then show ?thesis by (simp add: rebind_skip rebind_hit rebind_callable custom_one_def)
  next
    assume "name = ''two''" "n = 2"
    then show ?thesis by (simp add: rebind_skip rebind_hit rebind_callable custom_two_def)
  next
    assume "name = ''three''" "n = 3"
    then show ?thesis by (simp add: rebind_skip rebind_hit rebind_callable custom_three_def)
  next
    assume "name = ''four''" "n = 4"
    then show ?thesis by (simp add: rebind_skip rebind_hit rebind_callable custom_four_def)
  next
    assume "name = ''five''" "n = 5"
    then show ?thesis by (simp add: rebind_skip rebind_hit rebind_callable custom_five_def)
  next
    assume "name = ''six''" "n = 6"
    then show ?thesis by (simp add: rebind_skip rebind_hit rebind_callable custom_six_def)
  qed
qed

lemma rebind_ten:
  assumes "s \<in> set [''mean'', ''median'', ''max'', ''min'', ''one'', ''two'', ''three'', ''four'', ''five'', ''six'']"
  shows "\<exists>f. rebind ''six'' custom_six (rebind ''five'' custom_five (rebind ''four'' custom_four
     (rebind ''three'' custom_three (rebind ''two'' custom_two (rebind ''one'' custom_one
     (rebind ''min'' custom_min (rebind ''max'' custom_max (rebind ''median'' custom_median
     (rebind ''mean'' custom_mean (Name s)))))))))) = Callable f"
proof -
  have "s = ''mean'' \<or> s = ''median'' \<or> s = ''max'' \<or> s = ''min'' \<or> s = ''one''
    \<or> s = ''two'' \<or> s = ''three'' \<or> s = ''four'' \<or> s = ''five'' \<or> s = ''six''"
    using assms by simp
  then show ?thesis
  proof (elim disjE)
    assume "s = ''mean''"
    then show ?thesis by (simp add: rebind_skip rebind_hit rebind_callable)
  next
    assume "s = ''median''"
    then show ?thesis by (simp add: rebind_skip rebind_hit rebind_callable)
  next
    assume "s = ''max''"
    then show ?thesis by (simp add: rebind_skip rebind_hit rebind_callable)
  next
    assume "s = ''min''"
    then show ?thesis by (simp add: rebind_skip rebind_hit rebind_callable)
  next
    assume "s = ''one''"
    then show ?thesis by (simp add: rebind_skip rebind_hit rebind_callable)
  next
    assume "s = ''two''"
    then show ?thesis by (simp add: rebind_skip rebind_hit rebind_callable)
  next
    assume "s = ''three''"
    then show ?thesis by (simp add: rebind_skip rebind_hit rebind_callable)
  next
    assume "s = ''four''"
    then show ?thesis by (simp add: rebind_skip rebind_hit rebind_callable)
  next
    assume "s = ''five''"
    then show ?thesis by (simp add: rebind_skip rebind_hit rebind_callable)
  next
    assume "s = ''six''"
    then show ?thesis by (simp add: rebind_skip rebind_hit rebind_callable)
  qed
qed

lemma groupby_agg_callable:
  "groupby_agg named data k v (Callable f) = groupby_agg other data k v (Callable f)"
  by (simp add: groupby_agg_def Let_def split: option.splits)

text \<open>
  Claim C6. For the function \<open>one\<close>, ..., \<open>six\<close>, with \<open>n\<close> its number, and columns of the
  table for the groups and for the values, \<open>aggregate_col\<close> returns for every group 1 if
  some row of the group holds the number \<open>n\<close> in the value column (the integer, or the
  float of the same value, which is how a column with missing values stores it) and 0
  otherwise. A missing value is never the number; so a group whose values are all
  missing gets 0.
\<close>

theorem aggregate_col_number:
  assumes "(name, n) \<in> set [(''one'', 1), (''two'', 2), (''three'', 3), (''four'', 4),
                               (''five'', 5), (''six'', 6)]"
    and "get_loc k (columns data) = Some kp"
    and "get_loc v (columns data) = Some vp"
  shows "aggregate_col named data k v name =
      Inr \<lparr>index_name = k, value_name = v,
           entries = map (\<lambda>g. (g, IntVal (if \<exists>r\<in>set (rows data). py_key (r ! kp) = py_key g
                                    \<and> (r ! vp = IntVal n \<or> r ! vp = FloatVal (of_int n))
                                  then 1 else 0)))
                       (group_keys (map (\<lambda>r. r ! kp) (rows data)))\<rparr>
    \<and> (\<forall>df. df \<noteq> [] \<and> list_all isna df \<longrightarrow> custom_number n df = Inr (IntVal 0))"
proof -
  let ?kcol = "map (\<lambda>r. r ! kp) (rows data)" and ?vcol = "map (\<lambda>r. r ! vp) (rows data)"
  let ?h = "\<lambda>g. IntVal (if \<exists>r\<in>set (rows data). py_key (r ! kp) = py_key g
                                    \<and> (r ! vp = IntVal n \<or> r ! vp = FloatVal (of_int n))
                                  then 1 else 0)"
  have n: "n \<noteq> 0" using assms(1) by auto
  have "\<forall>g\<in>set (group_keys ?kcol). custom_number n (group_values ?kcol ?vcol g) = Inr (?h g)"
  proof
    fix g assume g: "g \<in> set (group_keys ?kcol)"
    have ne: "group_values ?kcol ?vcol g \<noteq> []" using g by (rule group_values_nonempty)
    have "(\<exists>v\<in>set (group_values ?kcol ?vcol g). py_key v = IntVal n) \<longleftrightarrow>
          (\<exists>r\<in>set (rows data). py_key (r ! kp) = py_key g
                                    \<and> (r ! vp = IntVal n \<or> r ! vp = FloatVal (of_int n)))"
      unfolding set_group_values py_key_int by blast
    then show "custom_number n (group_values ?kcol ?vcol g) = Inr (?h g)"
      using custom_number_result [OF n ne] by simp
  qed
  then have "agg_loop (custom_number n) ?kcol ?vcol (group_keys ?kcol) =
             Inr (map (\<lambda>g. (g, ?h g)) (group_keys ?kcol))"
    by (rule agg_loop_ok)
  then have "aggregate_col named data k v name =
      Inr \<lparr>index_name = k, value_name = v, entries = map (\<lambda>g. (g, ?h g)) (group_keys ?kcol)\<rparr>"
    using assms(2,3)
    by (simp add: aggregate_col_def rebind_number [OF assms(1)] groupby_agg_def Let_def)
  moreover have "custom_number n df = Inr (IntVal 0)" if "df \<noteq> []" "list_all isna df" for df
  proof -
    have "\<not> (\<exists>c\<in>set df. py_key c = IntVal n)"
      using that(2) isna_not_number by (auto simp: list_all_iff)
    then show ?thesis using custom_number_result [OF n that(1)] by simp
  qed
  ultimately show ?thesis by blast
qed

lemma group_keys_sightings:
  "group_keys (map (\<lambda>r. r ! 0) (rows sightings)) = [StrVal ''crow'', StrVal ''hawk'', StrVal ''owl'']"
  by code_simp

theorem aggregate_col_number_witness:
  "aggregate_col pandas_named sightings ''species'' ''seen'' ''three'' =
     Inr \<lparr>index_name = ''species'', value_name = ''seen'',
          entries = [(StrVal ''crow'', IntVal 0), (StrVal ''hawk'', IntVal 1),
                     (StrVal ''owl'', IntVal 1)]\<rparr>"
proof -
  have cols: "get_loc ''species'' (columns sightings) = Some 0"
    "get_loc ''seen'' (columns sightings) = Some 1"
    by (simp_all add: sightings_def)
  show ?thesis
    using aggregate_col_number [of "''three''" 3 "''species''" sightings 0 "''seen''" 1 pandas_named]
      cols
    by (simp add: group_keys_sightings) (simp add: sightings_def)
qed

text \<open>
  Claim C4, as the code has it. \<open>aggregate_col\<close> has no check of the name and no error
  of its own. A name other than \<open>mean\<close>, \<open>median\<close>, \<open>max\<close>, \<open>min\<close>, \<open>one\<close>, ..., \<open>six\<close>
  (\<open>dummy\<close> is such a name) reaches \<open>.agg\<close> of pandas unchanged, and \<open>aggregate_col\<close>
  returns or raises what pandas returns or raises for that name on the two columns. For
  one of the ten names pandas is not asked about a name: the result is the same whatever
  pandas gives for names.
\<close>

theorem aggregate_col_other_name:
  assumes "get_loc k (columns data) = Some kp"
    and "get_loc v (columns data) = Some vp"
  shows "(name \<notin> set [''mean'', ''median'', ''max'', ''min'', ''one'', ''two'', ''three'',
                          ''four'', ''five'', ''six'']
          \<longrightarrow> aggregate_col named data k v name =
                named name k v (map (\<lambda>r. r ! kp) (rows data)) (map (\<lambda>r. r ! vp) (rows data)))
       \<and> (name \<in> set [''mean'', ''median'', ''max'', ''min'', ''one'', ''two'', ''three'',
                          ''four'', ''five'', ''six'']
          \<longrightarrow> aggregate_col named data k v name = aggregate_col other data k v name)"
proof (intro conjI impI)
  assume "name \<notin> set [''mean'', ''median'', ''max'', ''min'', ''one'', ''two'', ''three'',
                          ''four'', ''five'', ''six'']"
  then show "aggregate_col named data k v name =
      named name k v (map (\<lambda>r. r ! kp) (rows data)) (map (\<lambda>r. r ! vp) (rows data))"
    using assms by (simp add: aggregate_col_def rebind_other groupby_agg_def Let_def)
next
  assume "name \<in> set [''mean'', ''median'', ''max'', ''min'', ''one'', ''two'', ''three'',
                          ''four'', ''five'', ''six'']"
  then obtain f where "rebind ''six'' custom_six (rebind ''five'' custom_five (rebind ''four'' custom_four
     (rebind ''three'' custom_three (rebind ''two'' custom_two (rebind ''one'' custom_one
     (rebind ''min'' custom_min (rebind ''max'' custom_max (rebind ''median'' custom_median
     (rebind ''mean'' custom_mean (Name name)))))))))) = Callable f"
    using rebind_ten by blast
  then show "aggregate_col named data k v name = aggregate_col other data k v name"
    by (simp add: aggregate_col_def groupby_agg_callable [of named data k v f other])
qed

theorem aggregate_col_other_name_witness:
  "aggregate_col pandas_named sightings ''species'' ''seen'' ''ngroups'' = Inl TypeError"
proof -
  have cols: "get_loc ''species'' (columns sightings) = Some 0"
    "get_loc ''seen'' (columns sightings) = Some 1"
    by (simp_all add: sightings_def)
  have "aggregate_col pandas_named sightings ''species'' ''seen'' ''ngroups'' =
      pandas_named ''ngroups'' ''species'' ''seen''
        (map (\<lambda>r. r ! 0) (rows sightings)) (map (\<lambda>r. r ! 1) (rows sightings))"
    using aggregate_col_other_name [OF cols, of "''ngroups''" pandas_named] by simp
  then show ?thesis by (simp add: pandas_named_def)
qed

text \<open>
  Claim C4 fails as stated: \<open>count\<close> is none of the eleven names, and with it
  \<open>aggregate_col\<close> returns a result, the number of values of each group that are not
  missing, which is what pandas gives for \<open>count\<close>.
\<close>

theorem aggregate_col_count_succeeds:
  "''count'' \<notin> set [''mean'', ''median'', ''max'', ''min'', ''dummy'', ''one'', ''two'', ''three'',
                      ''four'', ''five'', ''six'']
   \<and> aggregate_col pandas_named sightings ''species'' ''seen'' ''count'' =
       Inr \<lparr>index_name = ''species'', value_name = ''seen'',
            entries = [(StrVal ''crow'', IntVal 0), (StrVal ''hawk'', IntVal 1),
                       (StrVal ''owl'', IntVal 2)]\<rparr>"
  by code_simp

section \<open>Properties of the aggregation according to the instructions\<close>

lemma isna_cong: "py_key x = py_key y \<Longrightarrow> isna x = isna y"
  by (metis isna_py_key)

lemma py_key_image_drop_duplicates_from:
  "py_key ` set (drop_duplicates_from seen xs) = py_key ` set xs - set seen"
  by (induction xs arbitrary: seen) auto

lemma distinct_drop_duplicates_from:
  "distinct (map py_key (drop_duplicates_from seen xs))"
proof (induction xs arbitrary: seen)
  case Nil
  then show ?case by simp
next
  case (Cons x xs)
  have "py_key x \<notin> py_key ` set (drop_duplicates_from (py_key x # seen) xs)"
    unfolding py_key_image_drop_duplicates_from by simp
  then show ?case using Cons.IH by auto
qed

lemma drop_duplicates_from_cong:
  "set seen \<inter> py_key ` set ys = set seen' \<inter> py_key ` set ys \<Longrightarrow>
   drop_duplicates_from seen ys = drop_duplicates_from seen' ys"
proof (induction ys arbitrary: seen seen')
  case Nil
  then show ?case by simp
next
  case (Cons y ys)
  have mem: "py_key y \<in> set seen \<longleftrightarrow> py_key y \<in> set seen'"
    using Cons.prems by auto
  have a: "set seen \<inter> py_key ` set ys = set seen' \<inter> py_key ` set ys"
    using Cons.prems by auto
  have b: "set (py_key y # seen) \<inter> py_key ` set ys = set (py_key y # seen') \<inter> py_key ` set ys"
    using Cons.prems by auto
  show ?case
    using mem Cons.IH [OF a] Cons.IH [OF b] by simp
qed

lemma filter_drop_duplicates_from:
  assumes "\<And>x y. py_key x = py_key y \<Longrightarrow> P x = P y"
  shows "filter P (drop_duplicates_from seen xs) = drop_duplicates_from seen (filter P xs)"
proof (induction xs arbitrary: seen)
  case Nil
  then show ?case by simp
next
  case (Cons x xs)
  show ?case
  proof (cases "P x \<or> py_key x \<in> set seen")
    case True
    then show ?thesis using Cons.IH by auto
  next
    case False
    have "py_key x \<notin> py_key ` set (filter P xs)"
    proof
      assume "py_key x \<in> py_key ` set (filter P xs)"
      then obtain y where "P y" "py_key y = py_key x" by auto
      then have "P x" using assms by blast
      then show False using False by simp
    qed
    then have "drop_duplicates_from (py_key x # seen) (filter P xs) =
               drop_duplicates_from seen (filter P xs)"
      by (intro drop_duplicates_from_cong) auto
    then show ?thesis using False Cons.IH by simp
  qed
qed

lemma length_filter_distinct_key:
  "distinct (map f xs) \<Longrightarrow> length (filter (\<lambda>g. f g = k) xs) = (if k \<in> f ` set xs then 1 else 0)"
  by (induction xs) auto

lemma count_group_keys:
  "length (filter (\<lambda>g. py_key g = k) (group_keys kcol)) =
     (if k \<in> py_key ` {x \<in> set kcol. \<not> isna x} then 1 else 0)"
proof -
  let ?D = "drop_duplicates (filter (\<lambda>k. \<not> isna k) kcol)"
  have "length (filter (\<lambda>g. py_key g = k) (group_keys kcol)) = length (filter (\<lambda>g. py_key g = k) ?D)"
    by (simp add: group_keys_def filter_sort)
  also have "\<dots> = (if k \<in> py_key ` set ?D then 1 else 0)"
    by (rule length_filter_distinct_key) (simp add: drop_duplicates_def distinct_drop_duplicates_from)
  also have "py_key ` set ?D = py_key ` {x \<in> set kcol. \<not> isna x}"
    by (simp add: drop_duplicates_def py_key_image_drop_duplicates_from)
  finally show ?thesis .
qed

lemma agg_loop_keys: "agg_loop f kcol vcol gs = Inr es \<Longrightarrow> map fst es = gs"
  by (induction gs arbitrary: es) (auto split: sum.splits)

lemma aggregate_col_keys:
  assumes col: "aggregate_col named dat var v name = Inr col"
    and loc: "get_loc var (columns dat) = Some kp"
    and per_group: "name \<notin> set [''mean'', ''median'', ''max'', ''min'', ''one'', ''two'', ''three'', ''four'', ''five'', ''six'']
       \<longrightarrow> (\<forall>kcol vcol g. named name var v kcol vcol = Inr g
              \<longrightarrow> map fst (entries g) = group_keys kcol)"
  shows "map fst (entries col) = group_keys (map (\<lambda>r. r ! kp) (rows dat))"
proof (cases "name \<in> set [''mean'', ''median'', ''max'', ''min'', ''one'', ''two'', ''three'', ''four'', ''five'', ''six'']")
  case True
  then obtain f where "rebind ''six'' custom_six (rebind ''five'' custom_five (rebind ''four'' custom_four
     (rebind ''three'' custom_three (rebind ''two'' custom_two (rebind ''one'' custom_one
     (rebind ''min'' custom_min (rebind ''max'' custom_max (rebind ''median'' custom_median
     (rebind ''mean'' custom_mean (Name name)))))))))) = Callable f"
    using rebind_ten by blast
  then have "groupby_agg named dat var v (Callable f) = Inr col"
    using col by (simp add: aggregate_col_def)
  then show ?thesis using loc
    by (auto simp: groupby_agg_def Let_def dest: agg_loop_keys split: option.splits sum.splits)
next
  case False
  then have "groupby_agg named dat var v (Name name) = Inr col"
    using col by (simp add: aggregate_col_def rebind_other)
  then obtain vp where
    "named name var v (map (\<lambda>r. r ! kp) (rows dat)) (map (\<lambda>r. r ! vp) (rows dat)) = Inr col"
    using loc by (auto simp: groupby_agg_def Let_def split: option.splits)
  then show ?thesis using per_group False by blast
qed

lemma get_loc_zero: "get_loc c cols = Some 0 \<longleftrightarrow> (\<exists>rest. cols = c # rest)"
  by (cases cols) auto

lemma merge_keys:
  assumes m: "merge left col var = Inr out"
    and loc: "get_loc var (columns left) = Some 0"
    and ne: "\<forall>l\<in>set (rows left). l \<noteq> []"
    and keys: "map fst (entries col) = group_keys kcol"
    and sub: "\<forall>l\<in>set (rows left). hd l \<in> set kcol"
  shows "get_loc var (columns out) = Some 0
       \<and> (\<forall>l\<in>set (rows out). l \<noteq> [])
       \<and> map hd (rows out) = filter (\<lambda>k. \<not> isna k) (map hd (rows left))"
proof -
  obtain rest where cols: "columns left = var # rest" using loc get_loc_zero by blast
  have vne: "value_name col \<noteq> var" using m loc by (auto simp: merge_def split: if_splits)
  let ?match = "\<lambda>l. filter (\<lambda>e. py_key (fst e) = py_key (l ! 0)) (entries col)"
  have out: "out = \<lparr>columns =
               (if value_name col \<in> set (columns left)
                then map (\<lambda>c. if c = value_name col then c @ ''_x'' else c) (columns left)
                       @ [value_name col @ ''_y'']
                else columns left @ [value_name col]),
             rows = concat (map (\<lambda>l. map (\<lambda>e. l @ [snd e]) (?match l)) (rows left))\<rparr>"
    using m loc by (auto simp: merge_def split: if_splits)
  have c0: "get_loc var (columns out) = Some 0"
    using vne by (simp add: out cols)
  have r0: "\<forall>l\<in>set (rows out). l \<noteq> []"
    by (auto simp: out)
  have count: "length (?match l) = (if \<not> isna (hd l) then 1 else 0)" if l: "l \<in> set (rows left)" for l
  proof -
    have hd: "hd l = l ! 0" using ne l by (simp add: hd_conv_nth)
    have "length (?match l) = length (filter (\<lambda>g. py_key g = py_key (l ! 0)) (map fst (entries col)))"
      by (induction "entries col" arbitrary: col) (simp_all add: filter_map comp_def)
    also have "\<dots> = (if py_key (l ! 0) \<in> py_key ` {x \<in> set kcol. \<not> isna x} then 1 else 0)"
      unfolding keys by (rule count_group_keys)
    also have "py_key (l ! 0) \<in> py_key ` {x \<in> set kcol. \<not> isna x} \<longleftrightarrow> \<not> isna (l ! 0)"
      using sub l hd isna_cong by (metis (mono_tags, lifting) image_iff mem_Collect_eq)
    finally show ?thesis using hd by simp
  qed
  have "map hd (concat (map (\<lambda>l. map (\<lambda>e. l @ [snd e]) (?match l)) rs)) =
        filter (\<lambda>k. \<not> isna k) (map hd rs)" if "set rs \<subseteq> set (rows left)" for rs
    using that
  proof (induction rs)
    case Nil
    then show ?case by simp
  next
    case (Cons l rs)
    then have l: "l \<in> set (rows left)" by simp
    have lne: "l \<noteq> []" using ne l by blast
    have "map hd (map (\<lambda>e. l @ [snd e]) (?match l)) = replicate (length (?match l)) (hd l)"
      using lne by (simp add: map_replicate_const comp_def)
    also have "\<dots> = (if \<not> isna (hd l) then [hd l] else [])"
      using count [OF l] by simp
    finally show ?case using Cons by simp
  qed
  then have "map hd (rows out) = filter (\<lambda>k. \<not> isna k) (map hd (rows left))"
    by (simp add: out)
  then show ?thesis using c0 r0 by blast
qed

lemma aggregate_loop_keys:
  assumes "get_loc var (columns dat) = Some kp"
  shows "aggregate_loop named dat var instr left = Inr out \<Longrightarrow>
     get_loc var (columns left) = Some 0 \<Longrightarrow>
     \<forall>l\<in>set (rows left). l \<noteq> [] \<Longrightarrow>
     \<forall>l\<in>set (rows left). hd l \<in> set (map (\<lambda>r. r ! kp) (rows dat)) \<Longrightarrow>
     \<forall>i\<in>set instr. snd i \<notin> set [''mean'', ''median'', ''max'', ''min'', ''one'', ''two'', ''three'', ''four'', ''five'', ''six'']
       \<longrightarrow> (\<forall>kcol vcol g. named (snd i) var (fst i) kcol vcol = Inr g
              \<longrightarrow> map fst (entries g) = group_keys kcol) \<Longrightarrow>
     map hd (rows out) =
       (if instr = [] then map hd (rows left)
        else filter (\<lambda>k. \<not> isna k) (map hd (rows left)))"
proof (induction instr arbitrary: left)
  case Nil
  then show ?case by simp
next
  case (Cons i rest)
  from Cons.prems(1) obtain col merged where
    col: "aggregate_col named dat var (fst i) (snd i) = Inr col"
    and mg: "merge left col var = Inr merged"
    and loop: "aggregate_loop named dat var rest merged = Inr out"
    by (auto split: sum.splits)
  have per_group: "snd i \<notin> set [''mean'', ''median'', ''max'', ''min'', ''one'', ''two'', ''three'', ''four'', ''five'', ''six'']
       \<longrightarrow> (\<forall>kcol vcol g. named (snd i) var (fst i) kcol vcol = Inr g
              \<longrightarrow> map fst (entries g) = group_keys kcol)"
    using Cons.prems(5) by simp
  have rest: "\<forall>i\<in>set rest. snd i \<notin> set [''mean'', ''median'', ''max'', ''min'', ''one'', ''two'', ''three'', ''four'', ''five'', ''six'']
       \<longrightarrow> (\<forall>kcol vcol g. named (snd i) var (fst i) kcol vcol = Inr g
              \<longrightarrow> map fst (entries g) = group_keys kcol)"
    using Cons.prems(5) by simp
  have keys: "map fst (entries col) = group_keys (map (\<lambda>r. r ! kp) (rows dat))"
    using col assms per_group by (rule aggregate_col_keys)
  have mk: "get_loc var (columns merged) = Some 0"
    "\<forall>l\<in>set (rows merged). l \<noteq> []"
    "map hd (rows merged) = filter (\<lambda>k. \<not> isna k) (map hd (rows left))"
    using merge_keys [OF mg Cons.prems(2,3) keys Cons.prems(4)] by blast+
  have sub: "\<forall>l\<in>set (rows merged). hd l \<in> set (map (\<lambda>r. r ! kp) (rows dat))"
  proof
    fix l assume "l \<in> set (rows merged)"
    then have "hd l \<in> set (map hd (rows merged))" by simp
    then have "hd l \<in> set (map hd (rows left))" unfolding mk(3) by auto
    then show "hd l \<in> set (map (\<lambda>r. r ! kp) (rows dat))" using Cons.prems(4) by auto
  qed
  have "map hd (rows out) =
       (if rest = [] then map hd (rows merged)
        else filter (\<lambda>k. \<not> isna k) (map hd (rows merged)))"
    using Cons.IH [OF loop mk(1,2) sub rest] .
  then show ?case unfolding mk(3) by simp
qed

lemma get_loc_less: "get_loc c cols = Some p \<Longrightarrow> p < length cols"
  by (induction cols arbitrary: p) (auto split: if_splits)

lemma get_loc_append: "get_loc c xs = Some p \<Longrightarrow> get_loc c (xs @ ys) = Some p"
  by (induction xs arbitrary: p) (auto split: if_splits)

lemma key_column_concat_columns:
  assumes "\<forall>r\<in>set (rows a). length r = length (columns a)"
    and "kp < length (columns a)"
  shows "map (\<lambda>r. r ! kp) (rows (concat_columns a b)) =
         map (\<lambda>r. r ! kp) (rows a)
           @ replicate (max (length (rows a)) (length (rows b)) - length (rows a)) NaN"
proof -
  let ?n = "length (rows a)" and ?m = "max (length (rows a)) (length (rows b))"
  let ?row = "\<lambda>i. (if i < ?n then rows a ! i else replicate (length (columns a)) NaN)
                     @ (if i < length (rows b) then rows b ! i
                        else replicate (length (columns b)) NaN)"
  have cell: "?row i ! kp = (if i < ?n then rows a ! i ! kp else NaN)" for i
    using assms by (auto simp: nth_append)
  have split: "[0..<?m] = [0..<?n] @ [?n..<?m]"
    by (metis le_add_diff_inverse max.cobounded1 upt_add_eq_append zero_le)
  have "map (\<lambda>r. r ! kp) (rows (concat_columns a b)) = map (\<lambda>i. ?row i ! kp) [0..<?m]"
    by (simp add: concat_columns_def comp_def)
  also have "\<dots> = map (\<lambda>i. if i < ?n then rows a ! i ! kp else NaN) [0..<?m]"
    by (simp only: cell)
  also have "\<dots> = map (\<lambda>i. rows a ! i ! kp) [0..<?n] @ map (\<lambda>i. NaN) [?n..<?m]"
    unfolding split by simp
  also have "map (\<lambda>i. rows a ! i ! kp) [0..<?n] = map (\<lambda>r. r ! kp) (rows a)"
    by (simp add: map_equality_iff)
  also have "map (\<lambda>i. NaN) [?n..<?m] = replicate (?m - ?n) NaN"
    by (simp add: map_replicate_const)
  finally show ?thesis .
qed

lemma add_dummies_key_column:
  assumes "add_dummies get_dummies data instructions = Inr (dat, instr)"
    and "get_loc var (columns data) = Some kp"
    and "\<forall>r\<in>set (rows data). length r = length (columns data)"
  shows "get_loc var (columns dat) = Some kp
       \<and> filter (\<lambda>k. \<not> isna k) (map (\<lambda>r. r ! kp) (rows dat)) =
           filter (\<lambda>k. \<not> isna k) (map (\<lambda>r. r ! kp) (rows data))
       \<and> (instructions = [] \<longrightarrow> dat = data \<and> instr = [])"
proof (cases "map fst (filter (\<lambda>i. snd i = ''dummy'') instructions) = []")
  case True
  then show ?thesis using assms(1,2) by (simp add: add_dummies_def)
next
  case False
  then obtain dd where dat: "dat = concat_columns data dd"
    using assms(1) by (auto simp: add_dummies_def Let_def split: sum.splits)
  have ne: "instructions \<noteq> []" using False by auto
  have "get_loc var (columns dat) = Some kp"
    using assms(2) by (simp add: dat concat_columns_def get_loc_append)
  moreover have "filter (\<lambda>k. \<not> isna k) (map (\<lambda>r. r ! kp) (rows dat)) =
           filter (\<lambda>k. \<not> isna k) (map (\<lambda>r. r ! kp) (rows data))"
    unfolding dat key_column_concat_columns [OF assms(3) get_loc_less [OF assms(2)]]
    by simp
  ultimately show ?thesis using ne by simp
qed

lemma add_dummies_instructions:
  assumes "add_dummies get_dummies data instructions = Inr (dat, instr)"
  shows "\<forall>i\<in>set instr. (i \<in> set instructions \<and> snd i \<noteq> ''dummy'') \<or> snd i = ''max''"
proof (cases "map fst (filter (\<lambda>i. snd i = ''dummy'') instructions) = []")
  case True
  then have "instr = instructions" using assms by (simp add: add_dummies_def)
  moreover have "\<forall>i\<in>set instructions. snd i \<noteq> ''dummy''"
    using True by (simp add: filter_empty_conv)
  ultimately show ?thesis by simp
next
  case False
  let ?dummies = "map fst (filter (\<lambda>i. snd i = ''dummy'') instructions)"
  have instr: "set instr \<subseteq> {i. fst i \<notin> set ?dummies \<and> (i \<in> set instructions \<or> snd i = ''max'')}"
    using assms False by (auto simp: add_dummies_def Let_def split: sum.splits) force+
  show ?thesis
  proof
    fix i assume "i \<in> set instr"
    then have out: "fst i \<notin> set ?dummies"
      and mem: "i \<in> set instructions \<or> snd i = ''max''"
      using instr by auto
    have "snd i \<noteq> ''dummy''" if "i \<in> set instructions"
    proof
      assume "snd i = ''dummy''"
      then have "fst i \<in> set ?dummies" using that by auto
      then show False using out by simp
    qed
    then show "(i \<in> set instructions \<and> snd i \<noteq> ''dummy'') \<or> snd i = ''max''"
      using mem by blast
  qed
qed

text \<open>
  Claim C3, as the code has it. Let the grouping variable be a column of the table (its
  rows as long as its list of columns) and \<open>aggregate_data\<close> return a table. Let every
  instruction name one of the eleven functions of the documentation, or else a name for
  which pandas, when it returns a column, returns one value for each group. If, after
  the dummies, there is at least one instruction to apply, the table has exactly one row
  for each distinct value of the grouping column that is not missing, in the order of
  first occurrence: \<open>groupby\<close> forms no group for a missing key, and the inner join leaves
  out the key without a group. If the list of instructions is empty, the result is the
  grouping column without duplicates, the missing marker included. In every case the rows
  of the result have different keys.
\<close>

theorem aggregate_data_one_row_per_group:
  assumes "fst (aggregate_data named get_dummies data info var) = Inr out"
    and "get_loc var (columns data) = Some kp"
    and "\<forall>r\<in>set (rows data). length r = length (columns data)"
    and "\<forall>i\<in>set (at_rows info).
           snd i \<notin> set [''mean'', ''median'', ''max'', ''min'', ''dummy'', ''one'', ''two'',
                          ''three'', ''four'', ''five'', ''six'']
           \<longrightarrow> (\<forall>kcol vcol g. named (snd i) var (fst i) kcol vcol = Inr g
                  \<longrightarrow> map fst (entries g) = group_keys kcol)"
  shows "\<exists>dat instr. add_dummies get_dummies data (at_rows info) = Inr (dat, instr)
     \<and> (instr \<noteq> [] \<longrightarrow>
          map hd (rows out) =
            drop_duplicates (filter (\<lambda>k. \<not> isna k) (map (\<lambda>r. r ! kp) (rows data)))
          \<and> py_key ` set (map hd (rows out)) =
              py_key ` {k \<in> set (map (\<lambda>r. r ! kp) (rows data)). \<not> isna k})
     \<and> (at_rows info = [] \<longrightarrow>
          map hd (rows out) = drop_duplicates (map (\<lambda>r. r ! kp) (rows data)))
     \<and> distinct (map py_key (map hd (rows out)))"
proof -
  let ?kcol = "map (\<lambda>r. r ! kp) (rows data)"
  let ?renamed = "info\<lparr>at_columns := (''variable'', ''agg_function'')\<rparr>"
  have unfold: "fst (aggregate_data named get_dummies data info var) =
     (case add_dummies get_dummies data (at_rows info) of
            Inl e \<Rightarrow> Inl e
          | Inr (dat, instructions) \<Rightarrow>
              (case get_loc var (columns dat) of
                 None \<Rightarrow> Inl KeyError
               | Some kp \<Rightarrow>
                   aggregate_loop named dat var instructions
                     \<lparr>columns = [var],
                      rows = map (\<lambda>k. [k]) (drop_duplicates (map (\<lambda>r. r ! kp) (rows dat)))\<rparr>))"
    by (simp add: aggregate_data_def Let_def split: sum.splits prod.splits option.splits)
  obtain dat instr where ad: "add_dummies get_dummies data (at_rows info) = Inr (dat, instr)"
    using assms(1) unfolding unfold
    by (cases "add_dummies get_dummies data (at_rows info)") auto
  have kc: "get_loc var (columns dat) = Some kp"
    and fk: "filter (\<lambda>k. \<not> isna k) (map (\<lambda>r. r ! kp) (rows dat)) = filter (\<lambda>k. \<not> isna k) ?kcol"
    and em: "at_rows info = [] \<longrightarrow> dat = data \<and> instr = []"
    using add_dummies_key_column [OF ad assms(2,3)] by blast+
  let ?dcol = "map (\<lambda>r. r ! kp) (rows dat)"
  let ?left = "\<lparr>columns = [var], rows = map (\<lambda>k. [k]) (drop_duplicates ?dcol)\<rparr>"
  have loop: "aggregate_loop named dat var instr ?left = Inr out"
    using assms(1) unfolding unfold by (simp add: ad kc)
  have l0: "get_loc var (columns ?left) = Some 0" by simp
  have l1: "\<forall>l\<in>set (rows ?left). l \<noteq> []" by simp
  have hd_left: "map hd (rows ?left) = drop_duplicates ?dcol"
    by (simp add: comp_def)
  have "set (drop_duplicates ?dcol) \<subseteq> set ?dcol"
    unfolding drop_duplicates_def by (rule set_drop_duplicates_from)
  then have sub: "\<forall>l\<in>set (rows ?left). hd l \<in> set ?dcol"
    by auto
  have per_group: "\<forall>i\<in>set instr. snd i \<notin> set [''mean'', ''median'', ''max'', ''min'', ''one'', ''two'', ''three'', ''four'', ''five'', ''six'']
       \<longrightarrow> (\<forall>kcol vcol g. named (snd i) var (fst i) kcol vcol = Inr g
              \<longrightarrow> map fst (entries g) = group_keys kcol)"
  proof (intro ballI impI)
    fix i
    assume i: "i \<in> set instr"
      and other: "snd i \<notin> set [''mean'', ''median'', ''max'', ''min'', ''one'', ''two'', ''three'', ''four'', ''five'', ''six'']"
    have "(i \<in> set (at_rows info) \<and> snd i \<noteq> ''dummy'') \<or> snd i = ''max''"
      using add_dummies_instructions [OF ad] i by blast
    then have "i \<in> set (at_rows info)"
      and "snd i \<notin> set [''mean'', ''median'', ''max'', ''min'', ''dummy'', ''one'', ''two'',
                          ''three'', ''four'', ''five'', ''six'']"
      using other by auto
    then show "\<forall>kcol vcol g. named (snd i) var (fst i) kcol vcol = Inr g
              \<longrightarrow> map fst (entries g) = group_keys kcol"
      using assms(4) by blast
  qed
  have keys: "map hd (rows out) =
       (if instr = [] then drop_duplicates ?dcol
        else filter (\<lambda>k. \<not> isna k) (drop_duplicates ?dcol))"
    using aggregate_loop_keys [OF kc loop l0 l1 sub per_group] unfolding hd_left .
  have "filter (\<lambda>k. \<not> isna k) (drop_duplicates ?dcol) =
        drop_duplicates (filter (\<lambda>k. \<not> isna k) ?dcol)"
    unfolding drop_duplicates_def
    by (rule filter_drop_duplicates_from) (metis isna_cong)
  then have comm: "filter (\<lambda>k. \<not> isna k) (drop_duplicates ?dcol) =
              drop_duplicates (filter (\<lambda>k. \<not> isna k) ?kcol)"
    by (simp only: fk)
  have img: "py_key ` set (drop_duplicates (filter (\<lambda>k. \<not> isna k) ?kcol)) =
             py_key ` {k \<in> set ?kcol. \<not> isna k}"
    by (simp add: drop_duplicates_def py_key_image_drop_duplicates_from)
  have dist: "distinct (map py_key (map hd (rows out)))"
    unfolding keys drop_duplicates_def
    using distinct_drop_duplicates_from [of "[]" ?dcol]
    by (simp add: distinct_map_filter)
  have a: "instr \<noteq> [] \<longrightarrow>
          map hd (rows out) = drop_duplicates (filter (\<lambda>k. \<not> isna k) ?kcol)
          \<and> py_key ` set (map hd (rows out)) = py_key ` {k \<in> set ?kcol. \<not> isna k}"
    using keys comm img by (simp del: set_map)
  have b: "at_rows info = [] \<longrightarrow> map hd (rows out) = drop_duplicates ?kcol"
    using keys em by auto
  show ?thesis
    using ad a b dist by blast
qed

lemma aggregate_data_example:
  "fst (aggregate_data pandas_named get_dummies_text sightings seen_three_and_place ''species'') =
     Inr \<lparr>columns = [''species'', ''seen'', ''place_az'', ''place_nm''],
          rows = [[StrVal ''owl'', IntVal 1, IntVal 1, IntVal 1],
                  [StrVal ''hawk'', IntVal 1, IntVal 1, IntVal 0],
                  [StrVal ''crow'', IntVal 0, IntVal 0, IntVal 0]]\<rparr>"
  by code_simp

lemma add_dummies_example:
  "snd (projr (add_dummies get_dummies_text sightings (at_rows seen_three_and_place))) =
     [(''seen'', ''three''), (''place_az'', ''max''), (''place_nm'', ''max'')]"
  by code_simp

theorem aggregate_data_one_row_per_group_witness:
  "\<exists>out. fst (aggregate_data pandas_named get_dummies_text sightings seen_three_and_place
                 ''species'') = Inr out
     \<and> map hd (rows out) =
         drop_duplicates (filter (\<lambda>k. \<not> isna k) (map (\<lambda>r. r ! 0) (rows sightings)))
     \<and> map hd (rows out) = [StrVal ''owl'', StrVal ''hawk'', StrVal ''crow'']"
proof -
  have loc: "get_loc ''species'' (columns sightings) = Some 0"
    by (simp add: sightings_def)
  have rect: "\<forall>r\<in>set (rows sightings). length r = length (columns sightings)"
    by (simp add: sightings_def)
  have names: "\<forall>i\<in>set (at_rows seen_three_and_place).
           snd i \<notin> set [''mean'', ''median'', ''max'', ''min'', ''dummy'', ''one'', ''two'',
                          ''three'', ''four'', ''five'', ''six'']
           \<longrightarrow> (\<forall>kcol vcol g. pandas_named (snd i) ''species'' (fst i) kcol vcol = Inr g
                  \<longrightarrow> map fst (entries g) = group_keys kcol)"
    by (simp add: seen_three_and_place_def)
  obtain dat instr where
    ad: "add_dummies get_dummies_text sightings (at_rows seen_three_and_place) = Inr (dat, instr)"
    and keys: "instr \<noteq> [] \<longrightarrow> map hd (rows \<lparr>columns = [''species'', ''seen'', ''place_az'', ''place_nm''],
          rows = [[StrVal ''owl'', IntVal 1, IntVal 1, IntVal 1],
                  [StrVal ''hawk'', IntVal 1, IntVal 1, IntVal 0],
                  [StrVal ''crow'', IntVal 0, IntVal 0, IntVal 0]]\<rparr>) =
         drop_duplicates (filter (\<lambda>k. \<not> isna k) (map (\<lambda>r. r ! 0) (rows sightings)))"
    using aggregate_data_one_row_per_group [OF aggregate_data_example loc rect names] by blast
  have "instr \<noteq> []" using add_dummies_example ad by auto
  then show ?thesis using keys aggregate_data_example by simp
qed

text \<open>
  Claim C3 fails as stated: the grouping column of \<open>sightings\<close> holds the missing marker
  in one row, and the result of aggregating \<open>seen\<close> by \<open>max\<close> has a row for \<open>owl\<close>, \<open>hawk\<close>
  and \<open>crow\<close> and none for the missing marker. (The group \<open>crow\<close>, whose values are all
  missing, stays, with a missing result.)
\<close>

theorem aggregate_data_drops_missing_group:
  "NaN \<in> set (map (\<lambda>r. r ! 0) (rows sightings))
   \<and> fst (aggregate_data pandas_named get_dummies_text sightings
            \<lparr>at_columns = (''variable'', ''agg_function''), at_rows = [(''seen'', ''max'')]\<rparr>
            ''species'') =
       Inr \<lparr>columns = [''species'', ''seen''],
            rows = [[StrVal ''owl'', IntVal 3], [StrVal ''hawk'', FloatVal 3],
                    [StrVal ''crow'', NaN]]\<rparr>"
  by code_simp


section \<open>Properties of the entry points on the objects of their caller\<close>

lemma preserves_refl: "preserves ws h h"
  by (simp add: preserves_def)

lemma preserves_new: "preserves ws h (fst (new h ob))"
  by (simp add: preserves_def new_def nth_append)

lemma preserves_append: "preserves ws h (h @ xs)"
  by (simp add: preserves_def nth_append)

lemma relabelled_twice: "relabelled a b \<Longrightarrow> relabelled b c \<Longrightarrow> relabelled a c"
  by (auto simp: relabelled_def split: obj.splits)

lemma preserves_trans:
  assumes "preserves ws h h1" and "preserves ws' h1 h2"
  shows "preserves (ws @ ws') h h2"
  unfolding preserves_def
proof (intro conjI allI impI)
  show "length h \<le> length h2" using assms by (simp add: preserves_def)
next
  fix r assume r: "r < length h"
  then have r1: "r < length h1" using assms(1) by (simp add: preserves_def)
  have a: "h1 ! r = h ! r \<or> (r \<in> set ws \<and> relabelled (h ! r) (h1 ! r))"
    using assms(1) r by (simp add: preserves_def)
  have b: "h2 ! r = h1 ! r \<or> (r \<in> set ws' \<and> relabelled (h1 ! r) (h2 ! r))"
    using assms(2) r1 by (simp add: preserves_def)
  show "h2 ! r = h ! r \<or> (r \<in> set (ws @ ws') \<and> relabelled (h ! r) (h2 ! r))"
    using a b relabelled_twice by auto
qed


lemma preserves_length: "preserves ws h h' \<Longrightarrow> length h \<le> length h'"
  by (simp add: preserves_def)

lemma returns_new_mono: "length h \<le> length h1 \<Longrightarrow> returns_new h1 res \<Longrightarrow> returns_new h res"
  by (auto simp: returns_new_def split: sum.splits)







lemma preserves_get_lookup: "preserves [] h (fst (get_lookup_on h df))"
  by (auto simp: get_lookup_on_def new_def preserves_refl preserves_append Let_def
      split: option.splits obj.splits sum.splits
      intro: preserves_trans [of "[]" _ _ "[]", simplified])


lemma repl_loop_on_frame:
  "repl_loop_on column d inds h du = (h', res) \<Longrightarrow>
   length h' = length h \<and> (\<forall>r. r \<noteq> du \<longrightarrow> h' ! r = h ! r)"
proof (induction inds arbitrary: h)
  case Nil
  then show ?case by simp
next
  case (Cons ind inds)
  show ?case
  proof (cases "deref h du")
    case None
    then show ?thesis using Cons.prems by auto
  next
    case (Some ob)
    show ?thesis
    proof (cases ob)
      case (Table f)
      show ?thesis
      proof (cases "repl_loop column d [ind] f")
        case (Inl e)
        then show ?thesis using Cons.prems Some Table by auto
      next
        case (Inr f')
        then have "repl_loop_on column d inds (h[du := Table f']) du = (h', res)"
          using Cons.prems Some Table by simp
        from Cons.IH [OF this] show ?thesis by auto
      qed
    qed (use Cons.prems Some in auto)
  qed
qed


lemma new_split_multiple: "returns_new h (snd (snd (split_multiple_categorical_vars_on h data si)))"
  by (auto simp: split_multiple_categorical_vars_on_def returns_new_def new_def Let_def
      split: option.splits obj.splits sum.splits prod.splits)


lemma new_get_lookup: "returns_new h (snd (snd (get_lookup_on h df)))"
  by (auto simp: get_lookup_on_def returns_new_def new_def Let_def
      split: option.splits obj.splits sum.splits prod.splits)

lemma new_normalize_data: "returns_new h (snd (snd (normalize_data_on h data lk var)))"
  by (auto simp: normalize_data_on_def returns_new_def new_def
      split: option.splits obj.splits sum.splits prod.splits)

lemma repl_loop_on_ref: "repl_loop_on column d inds h du = (h', Inr r) \<Longrightarrow> r = du"
  by (induction inds arbitrary: h) (auto split: option.splits obj.splits sum.splits)

lemma new_repl_with_agg_string:
  "returns_new h (snd (snd (repl_with_agg_string_on h data column d)))"
proof -
  obtain h' wr res where run: "repl_with_agg_string_on h data column d = (h', wr, res)"
    by (cases "repl_with_agg_string_on h data column d") auto
  show ?thesis
  proof (cases res)
    case (Inl e)
    then show ?thesis using run by (simp add: returns_new_def)
  next
    case (Inr r)
    then have "r = Suc (length h)"
      using run repl_loop_on_ref
      by (auto simp: repl_with_agg_string_on_def new_def split: option.splits obj.splits prod.splits)
    then show ?thesis using run Inr by (simp add: returns_new_def)
  qed
qed


text \<open>The table that the loop of \<open>repl_with_agg_string\<close> has written, turn by turn, into the copy is the table of \<open>repl_loop\<close>.\<close>

lemma repl_loop_unfold:
  "repl_loop column d (ind # rest) f =
     (case repl_loop column d [ind] f of Inl e \<Rightarrow> Inl e | Inr f' \<Rightarrow> repl_loop column d rest f')"
  by (simp split: option.splits sum.splits)

lemma repl_loop_on_result:
  assumes "du < length h" and "h ! du = Table f"
  shows "(case repl_loop_on column d inds h du of
            (h', Inl e) \<Rightarrow> repl_loop column d inds f = Inl e
          | (h', Inr r) \<Rightarrow> r = du \<and> (\<exists>f'. repl_loop column d inds f = Inr f' \<and> h' ! du = Table f'))"
  using assms
proof (induction inds arbitrary: h f)
  case Nil
  then show ?case by simp
next
  case (Cons ind inds)
  have dr: "deref h du = Some (Table f)" using Cons.prems by (simp add: deref_def)
  show ?case
  proof (cases "repl_loop column d [ind] f")
    case (Inl e)
    have step: "repl_loop column d (ind # inds) f = Inl e"
      by (subst repl_loop_unfold) (simp only: Inl sum.case)
    show ?thesis using dr Inl by (simp add: step del: repl_loop.simps)
  next
    case (Inr f')
    have "(case repl_loop_on column d inds (h[du := Table f']) du of
            (h', Inl e) \<Rightarrow> repl_loop column d inds f' = Inl e
          | (h', Inr r) \<Rightarrow> r = du \<and> (\<exists>g. repl_loop column d inds f' = Inr g \<and> h' ! du = Table g))"
      using Cons.IH [of "h[du := Table f']" f'] Cons.prems by simp
    moreover have step: "repl_loop column d (ind # inds) f = repl_loop column d inds f'"
      by (subst repl_loop_unfold) (simp only: Inr sum.case)
    ultimately show ?thesis
      using dr Inr by (simp add: step del: repl_loop.simps)
  qed
qed

lemma repl_with_agg_string_on_result:
  assumes "deref h data = Some (Table d)"
  shows "(case repl_with_agg_string_on h data column dict of
            (h', wr, Inl e) \<Rightarrow> repl_with_agg_string d column dict = Inl e
          | (h', wr, Inr r) \<Rightarrow>
              (\<exists>f. repl_with_agg_string d column dict = Inr f \<and> deref h' r = Some (Table f)))"
proof -
  let ?h2 = "h @ [Table d] @ [Table d]"
  have a: "Suc (length h) < length ?h2" "?h2 ! Suc (length h) = Table d"
    by (simp_all add: nth_append)
  obtain h' res where l: "repl_loop_on column dict [0..<length (rows d)] ?h2 (Suc (length h)) = (h', res)"
    by (cases "repl_loop_on column dict [0..<length (rows d)] ?h2 (Suc (length h))")
  have len: "length h' = length ?h2" using repl_loop_on_frame [OF l] by blast
  have run: "repl_with_agg_string_on h data column dict = (h', [], res)"
    using l by (simp add: repl_with_agg_string_on_def assms new_def)
  show ?thesis
    using repl_loop_on_result [OF a, of column dict "[0..<length (rows d)]"] len
    unfolding run repl_with_agg_string_def l
    by (cases res) (auto simp: deref_def)
qed










lemma split_stage_new:
  assumes "preserves ws h (fst st)" and "returns_new h (snd (snd st))"
  shows "returns_new h (snd (snd (split_stage cfg st)))"
proof -
  obtain h1 pr res where st: "st = (h1, pr, res)" by (cases st) auto
  have len: "length h \<le> length h1" using assms(1) st preserves_length by fastforce
  show ?thesis
  proof (cases "\<exists>dat si. res = Inr dat \<and> split_info cfg = Some si")
    case True
    then obtain dat si where r: "res = Inr dat" "split_info cfg = Some si" by blast
    have "returns_new h (snd (snd (split_multiple_categorical_vars_on h1 dat si)))"
      using returns_new_mono [OF len new_split_multiple] .
    then show ?thesis by (auto simp: split_stage_def st r split: prod.splits)
  next
    case False
    then have "split_stage cfg st = st"
      by (auto simp: split_stage_def st split: sum.splits option.splits)
    then show ?thesis using assms(2) by simp
  qed
qed

lemma normalization_stage_new:
  assumes "preserves ws h (fst st)" and "returns_new h (snd (snd st))"
  shows "returns_new h (snd (snd (normalization_stage cfg st)))"
proof -
  obtain h1 pr res where st: "st = (h1, pr, res)" by (cases st) auto
  have len: "length h \<le> length h1" using assms(1) st preserves_length by fastforce
  show ?thesis
  proof (cases "\<exists>dat ni. res = Inr dat \<and> normalization_info cfg = Some ni")
    case True
    then obtain dat ni where r: "res = Inr dat" "normalization_info cfg = Some ni" by blast
    obtain h2 w2 r2 where gl: "get_lookup_on h1 ni = (h2, w2, r2)"
      by (cases "get_lookup_on h1 ni") auto
    have len2: "length h \<le> length h2"
      using preserves_length [OF preserves_get_lookup [of h1 ni]] gl len by simp
    show ?thesis
    proof (cases r2)
      case (Inl e)
      then show ?thesis by (simp add: normalization_stage_def st r gl returns_new_def)
    next
      case (Inr norm_dict)
      have "returns_new h (snd (snd (normalize_data_on h2 dat norm_dict (normalization_variable cfg))))"
        using returns_new_mono [OF len2 new_normalize_data] .
      then show ?thesis
        by (auto simp: normalization_stage_def st r gl Inr split: prod.splits)
    qed
  next
    case False
    then have "normalization_stage cfg st = st"
      by (auto simp: normalization_stage_def st split: sum.splits option.splits)
    then show ?thesis using assms(2) by simp
  qed
qed

lemma category_stage_new:
  assumes "preserves ws h (fst st)" and "returns_new h (snd (snd st))"
  shows "returns_new h (snd (snd (category_stage cfg st)))"
proof -
  obtain h1 pr res where st: "st = (h1, pr, res)" by (cases st) auto
  have len: "length h \<le> length h1" using assms(1) st preserves_length by fastforce
  show ?thesis
  proof (cases "\<exists>dat d. res = Inr dat \<and> aggregation_category_dict cfg = Some d")
    case True
    then obtain dat d where r: "res = Inr dat" "aggregation_category_dict cfg = Some d" by blast
    have "returns_new h (snd (snd (repl_with_agg_string_on h1 dat (aggregation_category_variable cfg) d)))"
      using returns_new_mono [OF len new_repl_with_agg_string] .
    then show ?thesis by (auto simp: category_stage_def st r split: prod.splits)
  next
    case False
    then have "category_stage cfg st = st"
      by (auto simp: category_stage_def st split: sum.splits option.splits)
    then show ?thesis using assms(2) by simp
  qed
qed



























end
